theory Spec2Isabelle
  imports Main
begin

section \<open>Overview\<close>

text \<open>
  A model of the alert engine of the booking console (\<open>buildAlerts\<close> in
  \<open>src/utils/alertEngine.ts\<close>, with the date helpers of \<open>src/utils/dateUtils.ts\<close>)
  and of its resolution store (\<open>src/state/AlertStore.tsx\<close>: \<open>normalizeResolutions\<close>,
  the merged \<open>alerts\<close>, \<open>resolveAlert\<close>, \<open>dismissAlert\<close>, \<open>reopenAlert\<close>).

  \<^item> Numbers are mathematical integers: guest counts, capacities, ids and amounts are
    integers in the application, and the engine only adds and compares them.
  \<^item> Strings are byte lists, the UTF-8 encoding of the text (a string that holds an
    unpaired surrogate has none and is outside the model).
  \<^item> A value that may be \<open>undefined\<close> or \<open>null\<close> is an \<open>option\<close>.
  \<^item> A \<open>Map\<close> is an association list in insertion order; a \<open>Record\<close> used as a
    dictionary is a finite map.
  \<^item> A loop that pushes alerts is the list of the alerts it pushes; the output is the
    concatenation of these lists in the order of the loops.
  \<^item> What the platform decides (parsing a date label, the local time zone, the locale
    format of a number, the clock) is a parameter.
  \<^item> A field or function keeps its source name, with a suffix where the name is taken:
    \<open>id_b\<close>, \<open>id_a\<close>, \<open>type_a\<close>, \<open>dateKey_a\<close>, \<open>slot_a\<close> (booking and alert),
    \<open>capacity_u\<close> (usage record), \<open>status_r\<close>, \<open>note_r\<close> (resolution),
    \<open>payMethod\<close> (advance), \<open>HallA\<close>, \<open>HallB\<close> (hall codes).
\<close>

section \<open>Strings of the JavaScript runtime\<close>

definition enDash :: string where
  "enDash = [CHR 0xE2, CHR 0x80, CHR 0x93]"

definition rightQuote :: string where
  "rightQuote = [CHR 0xE2, CHR 0x80, CHR 0x99]"

definition digitChar :: "nat \<Rightarrow> char" where
  "digitChar n = ''0123456789'' ! n"

fun showNat :: "nat \<Rightarrow> string" where
  "showNat n = (if n < 10 then [digitChar n] else showNat (n div 10) @ [digitChar (n mod 10)])"

declare showNat.simps [simp del]

text \<open>\<open>String(n)\<close> and \<open>`${n}`\<close> for an integer \<open>n\<close>.\<close>

definition showInt :: "int \<Rightarrow> string" where
  "showInt i = (if i < 0 then CHR ''-'' # showNat (nat (- i)) else showNat (nat i))"

text \<open>\<open>`${x}`\<close> for a value that may be \<open>undefined\<close>.\<close>

definition tmpl :: "string option \<Rightarrow> string" where
  "tmpl x = (case x of None \<Rightarrow> ''undefined'' | Some s \<Rightarrow> s)"

text \<open>\<open>s.padStart(n, p)\<close>.\<close>

definition padStart :: "nat \<Rightarrow> string \<Rightarrow> string \<Rightarrow> string" where
  "padStart n p s =
     (if n \<le> length s \<or> p = [] then s
      else take (n - length s) (concat (replicate (n - length s) p)) @ s)"

text \<open>\<open>s.split(c)\<close> for a one-character separator.\<close>

fun split :: "char \<Rightarrow> string \<Rightarrow> string list" where
  "split c [] = [[]]"
| "split c (x # xs) =
     (if x = c then [] # split c xs
      else (case split c xs of [] \<Rightarrow> [[x]] | p # ps \<Rightarrow> (x # p) # ps))"

text \<open>Array destructuring: a missing position is \<open>undefined\<close>.\<close>

definition part :: "string list \<Rightarrow> nat \<Rightarrow> string option" where
  "part ps i = (if i < length ps then Some (ps ! i) else None)"

text \<open>\<open>xs.join(sep)\<close>.\<close>

fun join :: "string \<Rightarrow> string list \<Rightarrow> string" where
  "join sep [] = []"
| "join sep [x] = x"
| "join sep (x # y # ys) = x @ sep @ join sep (y # ys)"

text \<open>
  The white space that \<open>s.trim()\<close> strips: the code points of the classes WhiteSpace
  and LineTerminator of ECMAScript, each as its UTF-8 bytes. They are the tab, line feed,
  vertical tab, form feed, carriage return and space, U+00A0, U+1680, U+2000 to U+200A,
  U+2028, U+2029, U+202F, U+205F, U+3000 and U+FEFF.
\<close>

definition whiteSpace :: "string list" where
  "whiteSpace =
     map (\<lambda>c. [c]) [CHR 0x09, CHR 0x0A, CHR 0x0B, CHR 0x0C, CHR 0x0D, CHR 0x20]
     @ [[CHR 0xC2, CHR 0xA0], [CHR 0xE1, CHR 0x9A, CHR 0x80]]
     @ map (\<lambda>c. [CHR 0xE2, CHR 0x80, c])
         [CHR 0x80, CHR 0x81, CHR 0x82, CHR 0x83, CHR 0x84, CHR 0x85, CHR 0x86, CHR 0x87,
          CHR 0x88, CHR 0x89, CHR 0x8A, CHR 0xA8, CHR 0xA9, CHR 0xAF]
     @ [[CHR 0xE2, CHR 0x81, CHR 0x9F], [CHR 0xE3, CHR 0x80, CHR 0x80],
        [CHR 0xEF, CHR 0xBB, CHR 0xBF]]"

text \<open>Dropping from the front of \<open>s\<close> every leading occurrence of a member of \<open>ws\<close>.\<close>

function stripStart :: "string list \<Rightarrow> string \<Rightarrow> string" where
  "stripStart ws s =
     (case find (\<lambda>w. w \<noteq> [] \<and> take (length w) s = w) ws of
        None \<Rightarrow> s
      | Some w \<Rightarrow> stripStart ws (drop (length w) s))"
  by pat_completeness auto

termination
proof (relation "measure (\<lambda>p. length (snd p))")
  show "wf (measure (\<lambda>p. length (snd p)))" by simp
next
  fix ws :: "string list" and s w :: string
  assume "find (\<lambda>w. w \<noteq> [] \<and> take (length w) s = w) ws = Some w"
  then have w: "w \<noteq> []" "take (length w) s = w" by (auto simp: find_Some_iff)
  then have "s \<noteq> []" by auto
  with w(1) have "length s - length w < length s" by (cases w; cases s) auto
  then show "((ws, drop (length w) s), (ws, s)) \<in> measure (\<lambda>p. length (snd p))" by simp
qed

declare stripStart.simps [simp del]

text \<open>
  \<open>s.trim()\<close>: the white space is stripped from the start, then from the end. In
  UTF-8 no encoding of a code point ends with the encoding of another one, so the
  bytes stripped from the end are those of the trailing white space.
\<close>

definition trim :: "string \<Rightarrow> string" where
  "trim s = rev (stripStart (map rev whiteSpace) (rev (stripStart whiteSpace s)))"

section \<open>Dates\<close>

text \<open>
  A \<open>Date\<close> is its time value in milliseconds since the epoch, \<open>None\<close> for an
  invalid date (time value \<open>NaN\<close>). Parsing a label, the local calendar fields of a
  time value, the local-time constructor \<open>new Date(y, m, d)\<close> and the locale
  formatting of a number belong to the runtime and its time zone; they are
  parameters of the model.
\<close>

type_synonym jsdate = "int option"

text \<open>
  \<open>dateParse\<close> is \<open>new Date(label)\<close>; \<open>localYMD\<close> gives \<open>getFullYear()\<close>,
  \<open>getMonth()\<close> and \<open>getDate()\<close> of a valid date; \<open>localDate\<close> is
  \<open>new Date(y, m, d)\<close>; \<open>toLocaleString\<close> is \<open>n.toLocaleString("en-PK")\<close>.
\<close>

record JsRuntime =
  dateParse :: "string \<Rightarrow> jsdate"
  localYMD :: "int \<Rightarrow> int \<times> int \<times> int"
  localDate :: "int \<Rightarrow> int \<Rightarrow> int \<Rightarrow> jsdate"
  toLocaleString :: "int \<Rightarrow> string"

text \<open>\<open>new Date(ms)\<close>: a time value beyond the range of \<open>Date\<close> is invalid.\<close>

definition timeClip :: "int \<Rightarrow> jsdate" where
  "timeClip t = (if \<bar>t\<bar> \<le> 8640000000000000 then Some t else None)"

definition parseEventDateLabel :: "JsRuntime \<Rightarrow> string \<Rightarrow> jsdate" where
  "parseEventDateLabel rt label = dateParse rt label"

definition dateKey :: "JsRuntime \<Rightarrow> jsdate \<Rightarrow> string" where
  "dateKey rt d =
     (case d of
        None \<Rightarrow> ''NaN'' @ ''-'' @ padStart 2 ''0'' ''NaN'' @ ''-'' @ padStart 2 ''0'' ''NaN''
      | Some t \<Rightarrow>
          (case localYMD rt t of (y, mon, dd) \<Rightarrow>
             (let m = padStart 2 ''0'' (showInt (mon + 1));
                  day = padStart 2 ''0'' (showInt dd)
              in showInt y @ ''-'' @ m @ ''-'' @ day)))"

definition dateKeyFromDate :: "JsRuntime \<Rightarrow> jsdate \<Rightarrow> string" where
  "dateKeyFromDate rt d = dateKey rt d"

definition startOfDay :: "JsRuntime \<Rightarrow> jsdate \<Rightarrow> jsdate" where
  "startOfDay rt d =
     (case d of None \<Rightarrow> None
      | Some t \<Rightarrow> (case localYMD rt t of (y, mon, dd) \<Rightarrow> localDate rt y mon dd))"

definition addDays :: "jsdate \<Rightarrow> int \<Rightarrow> jsdate" where
  "addDays base days =
     (case base of None \<Rightarrow> None
      | Some t \<Rightarrow> timeClip (t + days * 24 * 60 * 60 * 1000))"

text \<open>Relational comparison of two dates: false as soon as one of them is invalid.\<close>

definition dateGe :: "jsdate \<Rightarrow> jsdate \<Rightarrow> bool" where
  "dateGe d e = (case (d, e) of (Some a, Some b) \<Rightarrow> b \<le> a | _ \<Rightarrow> False)"

definition dateLe :: "jsdate \<Rightarrow> jsdate \<Rightarrow> bool" where
  "dateLe d e = (case (d, e) of (Some a, Some b) \<Rightarrow> a \<le> b | _ \<Rightarrow> False)"

definition dateLt :: "jsdate \<Rightarrow> jsdate \<Rightarrow> bool" where
  "dateLt d e = (case (d, e) of (Some a, Some b) \<Rightarrow> a < b | _ \<Rightarrow> False)"

section \<open>Bookings and alerts\<close>

text \<open>
  The types of \<open>src/mock/bookingsMockApi.ts\<close> and of the engine. A slot, a status and a
  hall code are strings at run time: \<open>slotStr\<close>, \<open>statusStr\<close> and \<open>hallCodeStr\<close>
  give them. The list \<open>halls\<close> is never \<open>null\<close> by its type; the engine's guards
  (\<open>b.halls ?? []\<close>) would read \<open>null\<close> as the empty list.
\<close>

datatype Slot = LUNCH | DINNER

datatype BookingStatus = INQUIRY | TENTATIVE | CONFIRMED | COMPLETED | CANCELLED

datatype HallCode = HallA | HallB

definition slotStr :: "Slot \<Rightarrow> string" where
  "slotStr s = (case s of LUNCH \<Rightarrow> ''LUNCH'' | DINNER \<Rightarrow> ''DINNER'')"

definition statusStr :: "BookingStatus \<Rightarrow> string" where
  "statusStr s = (case s of INQUIRY \<Rightarrow> ''INQUIRY'' | TENTATIVE \<Rightarrow> ''TENTATIVE''
     | CONFIRMED \<Rightarrow> ''CONFIRMED'' | COMPLETED \<Rightarrow> ''COMPLETED'' | CANCELLED \<Rightarrow> ''CANCELLED'')"

definition hallCodeStr :: "HallCode \<Rightarrow> string" where
  "hallCodeStr h = (case h of HallA \<Rightarrow> ''A'' | HallB \<Rightarrow> ''B'')"

record HallAllocation =
  hallCode :: HallCode
  hallName :: string
  capacity :: int
  guestsHere :: int
  guestsInOtherHallsText :: "string option"

record AdvanceSummary =
  amount :: int
  payMethod :: string
  destinationAccount :: string
  reference :: "string option"
  receivedAtLabel :: "string option"

record MockBooking =
  id_b :: int
  bookingRef :: string
  eventTitle :: string
  nameplateText :: "string option"
  eventDateLabel :: string
  slot :: Slot
  totalGuests :: int
  hallAGuests :: "int option"
  hallBGuests :: "int option"
  status :: BookingStatus
  customerName :: string
  customerPhone :: string
  customerWhatsapp :: "string option"
  familyOrCompanyName :: "string option"
  customerAddress :: "string option"
  customerReference :: "string option"
  hasPerformance :: bool
  performanceDescription :: "string option"
  halls :: "HallAllocation list"
  internalNote :: "string option"
  advance :: "AdvanceSummary option"
  isDeleted :: "bool option"
  deletedAt :: "string option"
  deletedBy :: "string option"
  deletedReason :: "string option"

datatype AlertType =
    CAPACITY_OVERRIDE
  | PERFORMANCE_HALL_CONFLICT
  | SOFT_BOOKING_FOLLOWUP
  | PAST_NOT_CLOSED
  | MISSING_CONTACT
  | GUEST_SPLIT_MISMATCH
  | COMPLEX_MULTI_HALL_DAY
  | HIGH_GUEST_COUNT
  | HIGH_ADVANCE_VALUE

datatype AlertSeverity = info | warning | critical

record AlertDefinition =
  id_a :: string
  type_a :: AlertType
  severity :: AlertSeverity
  title :: string
  message :: string
  sub :: "string option"
  bookingId :: "int option"
  dateKey_a :: "string option"
  slot_a :: "string option"

record HallSlotUsage =
  used :: int
  capacity_u :: int
  eventCount :: int
  sampleBookingId :: "int option"
  sampleDateLabel :: "string option"
  sampleGuestsHere :: int

section \<open>The alert engine\<close>

text \<open>
  A \<open>Map\<close> keeps its entries in the order in which their keys were first set:
  an association list, \<open>set\<close> replacing the value in place or appending.
\<close>

definition mapGet :: "(string \<times> 'v) list \<Rightarrow> string \<Rightarrow> 'v option" where
  "mapGet m k = map_of m k"

fun mapSet :: "string \<Rightarrow> 'v \<Rightarrow> (string \<times> 'v) list \<Rightarrow> (string \<times> 'v) list" where
  "mapSet k v [] = [(k, v)]"
| "mapSet k v (e # m) = (if fst e = k then (k, v) # m else e # mapSet k v m)"

record IndexState =
  slotHallBookings :: "(string \<times> MockBooking list) list"
  daySlotBookings :: "(string \<times> MockBooking list) list"
  hallSlotUsage :: "(string \<times> HallSlotUsage) list"

definition hallSlotKey :: "string \<Rightarrow> Slot \<Rightarrow> HallCode \<Rightarrow> string" where
  "hallSlotKey dk s h = dk @ ''|'' @ slotStr s @ ''|'' @ hallCodeStr h"

definition daySlotKey :: "string \<Rightarrow> Slot \<Rightarrow> string" where
  "daySlotKey dk s = dk @ ''|'' @ slotStr s"

text \<open>The usage record written for a key, from the previous one (if any).\<close>

definition nextUsage :: "HallSlotUsage option \<Rightarrow> MockBooking \<Rightarrow> HallAllocation \<Rightarrow> HallSlotUsage" where
  "nextUsage prev b hall =
     (let nextUsed = (case prev of None \<Rightarrow> 0 | Some p \<Rightarrow> used p) + guestsHere hall;
          nextCapacity =
            max (case prev of None \<Rightarrow> capacity hall | Some p \<Rightarrow> capacity_u p) (capacity hall);
          nextEventCount = (case prev of None \<Rightarrow> 0 | Some p \<Rightarrow> eventCount p) + 1;
          prevBookingId = (case prev of None \<Rightarrow> None | Some p \<Rightarrow> sampleBookingId p);
          prevDateLabel = (case prev of None \<Rightarrow> None | Some p \<Rightarrow> sampleDateLabel p);
          prevGuestsHere = (case prev of None \<Rightarrow> 0 | Some p \<Rightarrow> sampleGuestsHere p)
      in if guestsHere hall \<ge> prevGuestsHere
         then \<lparr>used = nextUsed, capacity_u = nextCapacity, eventCount = nextEventCount,
               sampleBookingId = Some (id_b b), sampleDateLabel = Some (eventDateLabel b),
               sampleGuestsHere = guestsHere hall\<rparr>
         else \<lparr>used = nextUsed, capacity_u = nextCapacity, eventCount = nextEventCount,
               sampleBookingId = prevBookingId, sampleDateLabel = prevDateLabel,
               sampleGuestsHere = prevGuestsHere\<rparr>)"

text \<open>The body of the inner loop, over the hall allocations of booking \<open>b\<close>.\<close>

definition hallStep :: "string \<Rightarrow> MockBooking \<Rightarrow> IndexState \<Rightarrow> HallAllocation \<Rightarrow> IndexState" where
  "hallStep dk b st hall =
     (let key = hallSlotKey dk (slot b) (hallCode hall);
          list = (case mapGet (slotHallBookings st) key of None \<Rightarrow> [] | Some l \<Rightarrow> l);
          prev = mapGet (hallSlotUsage st) key
      in st\<lparr>slotHallBookings := mapSet key (list @ [b]) (slotHallBookings st),
             hallSlotUsage := mapSet key (nextUsage prev b hall) (hallSlotUsage st)\<rparr>)"

text \<open>The body of the first loop over the bookings.\<close>

definition bookingStep :: "JsRuntime \<Rightarrow> IndexState \<Rightarrow> MockBooking \<Rightarrow> IndexState" where
  "bookingStep rt st b =
     (let d = parseEventDateLabel rt (eventDateLabel b);
          dk = dateKeyFromDate rt d;
          key = daySlotKey dk (slot b);
          daySlotArr = (case mapGet (daySlotBookings st) key of None \<Rightarrow> [] | Some l \<Rightarrow> l);
          st1 = st\<lparr>daySlotBookings := mapSet key (daySlotArr @ [b]) (daySlotBookings st)\<rparr>
      in foldl (hallStep dk b) st1 (halls b))"

definition indexBookings :: "JsRuntime \<Rightarrow> MockBooking list \<Rightarrow> IndexState" where
  "indexBookings rt bookings =
     foldl (bookingStep rt)
       \<lparr>slotHallBookings = [], daySlotBookings = [], hallSlotUsage = []\<rparr> bookings"

definition humanSlot :: "string option \<Rightarrow> string" where
  "humanSlot s = (if s = Some ''LUNCH'' then ''Lunch'' else ''Dinner'')"

subsection \<open>Rule 1: capacity override\<close>

definition capacityAlert :: "string \<Rightarrow> HallSlotUsage \<Rightarrow> AlertDefinition" where
  "capacityAlert key usage =
     (let ps = split CHR ''|'' key;
          dk = part ps 0; slotS = part ps 1; hallC = part ps 2;
          dateLabel = (case sampleDateLabel usage of None \<Rightarrow> dk | Some l \<Rightarrow> Some l)
      in \<lparr>id_a = ''cap-'' @ tmpl dk @ ''-'' @ tmpl slotS @ ''-'' @ tmpl hallC,
          type_a = CAPACITY_OVERRIDE,
          severity = critical,
          title = ''Capacity override '' @ enDash @ '' Hall '' @ tmpl hallC,
          message = tmpl dateLabel @ '' ('' @ humanSlot slotS @ ''): Hall '' @ tmpl hallC
             @ '' has '' @ showInt (used usage) @ '' guests across ''
             @ showInt (eventCount usage) @ '' event(s) for ''
             @ showInt (capacity_u usage) @ '' capacity.'',
          sub = Some (''This indicates the hall is overbooked for the same slot. ''
             @ ''Review allocations, safety, and get explicit manager approval ''
             @ ''if this is intentional.''),
          bookingId = sampleBookingId usage,
          dateKey_a = dk,
          slot_a = slotS\<rparr>)"

definition capacityAlerts :: "(string \<times> HallSlotUsage) list \<Rightarrow> AlertDefinition list" where
  "capacityAlerts entries =
     concat (map (\<lambda>(key, usage).
        if used usage \<le> capacity_u usage then [] else [capacityAlert key usage]) entries)"

subsection \<open>Rule 2: performance conflict\<close>

definition perfAlert :: "string \<Rightarrow> MockBooking list \<Rightarrow> AlertDefinition" where
  "perfAlert key list =
     (let ps = split CHR ''|'' key;
          dk = part ps 0; slotS = part ps 1; hallC = part ps 2;
          anyWithPerf = find hasPerformance list;
          dateLabel = (case anyWithPerf of None \<Rightarrow> dk | Some p \<Rightarrow> Some (eventDateLabel p))
      in \<lparr>id_a = ''perf-conflict-'' @ tmpl dk @ ''-'' @ tmpl slotS @ ''-'' @ tmpl hallC,
          type_a = PERFORMANCE_HALL_CONFLICT,
          severity = warning,
          title = ''Performance + other event in same hall'',
          message = ''There are '' @ showInt (int (length list)) @ '' event(s) in Hall ''
             @ tmpl hallC @ '' during '' @ humanSlot slotS @ '' on '' @ tmpl dateLabel
             @ '', and at least one has a performance.'',
          sub = Some (''By rule, a hall with musical performance should usually be ''
             @ ''exclusive. Review and decide if this is acceptable ''
             @ ''(or dismiss with manager note).''),
          bookingId = map_option id_b anyWithPerf,
          dateKey_a = dk,
          slot_a = slotS\<rparr>)"

definition perfAlerts :: "(string \<times> MockBooking list) list \<Rightarrow> AlertDefinition list" where
  "perfAlerts entries =
     concat (map (\<lambda>(key, list).
        if length list \<le> 1 then []
        else if \<not> list_ex hasPerformance list then []
        else [perfAlert key list]) entries)"

subsection \<open>Rules 3 to 8: one booking at a time\<close>

definition softFollowAlert :: "string \<Rightarrow> MockBooking \<Rightarrow> AlertDefinition" where
  "softFollowAlert dk b =
     \<lparr>id_a = ''soft-follow-'' @ showInt (id_b b),
      type_a = SOFT_BOOKING_FOLLOWUP,
      severity = warning,
      title = (if status b = INQUIRY then ''Inquiry '' @ enDash @ '' follow up''
               else ''Tentative '' @ enDash @ '' confirm or release''),
      message = eventTitle b @ '' on '' @ eventDateLabel b @ '' (''
         @ humanSlot (Some (slotStr (slot b))) @ '').'',
      sub = Some (''Status: '' @ statusStr (status b) @ ''. Contact: '' @ customerName b
         @ (if customerPhone b \<noteq> [] then '' '' @ enDash @ '' '' @ customerPhone b else [])
         @ ''. Please confirm or free the slot.''),
      bookingId = Some (id_b b),
      dateKey_a = Some dk,
      slot_a = Some (slotStr (slot b))\<rparr>"

definition pastOpenAlert :: "string \<Rightarrow> MockBooking \<Rightarrow> AlertDefinition" where
  "pastOpenAlert dk b =
     \<lparr>id_a = ''past-open-'' @ showInt (id_b b),
      type_a = PAST_NOT_CLOSED,
      severity = warning,
      title = ''Past booking not closed'',
      message = eventTitle b @ '' on '' @ eventDateLabel b @ '' is still marked as ''
         @ statusStr (status b) @ ''.'',
      sub = Some (''Mark this booking as COMPLETED or CANCELLED so reporting and ''
         @ ''headcount stay accurate.''),
      bookingId = Some (id_b b),
      dateKey_a = Some dk,
      slot_a = Some (slotStr (slot b))\<rparr>"

definition missingPhone :: "MockBooking \<Rightarrow> bool" where
  "missingPhone b = (customerPhone b = [] \<or> trim (customerPhone b) = [])"

definition missingAddress :: "MockBooking \<Rightarrow> bool" where
  "missingAddress b =
     (case customerAddress b of None \<Rightarrow> True | Some a \<Rightarrow> a = [] \<or> trim a = [])"

definition missingContactAlert :: "string \<Rightarrow> MockBooking \<Rightarrow> AlertDefinition" where
  "missingContactAlert dk b =
     (let missingParts = (if missingPhone b then [''phone''] else [])
                       @ (if missingAddress b then [''address''] else [])
      in \<lparr>id_a = ''missing-contact-'' @ showInt (id_b b),
          type_a = MISSING_CONTACT,
          severity = info,
          title = ''Missing contact details'',
          message = eventTitle b @ '' is missing: '' @ join '' & '' missingParts @ ''.'',
          sub = Some (''Customer: '' @ customerName b @ ''. Add ''
             @ join '' and '' missingParts @ '' so it'' @ rightQuote
             @ ''s easier to reach them and keep records complete.''),
          bookingId = Some (id_b b),
          dateKey_a = Some dk,
          slot_a = Some (slotStr (slot b))\<rparr>)"

text \<open>\<open>x || 0\<close> for a guest count that may be \<open>null\<close>.\<close>

definition orZero :: "int option \<Rightarrow> int" where
  "orZero x = (case x of None \<Rightarrow> 0 | Some n \<Rightarrow> (if n = 0 then 0 else n))"

definition splitMismatchAlert :: "string \<Rightarrow> MockBooking \<Rightarrow> AlertDefinition" where
  "splitMismatchAlert dk b =
     (let sum = orZero (hallAGuests b) + orZero (hallBGuests b)
      in \<lparr>id_a = ''split-mismatch-'' @ showInt (id_b b),
          type_a = GUEST_SPLIT_MISMATCH,
          severity = info,
          title = ''Guest split mismatch'',
          message = eventTitle b @ '': totalGuests = '' @ showInt (totalGuests b)
             @ '', but Hall A + Hall B = '' @ showInt sum @ ''.'',
          sub = Some (''Check hall splits '' @ enDash
             @ '' this affects capacity logic and guest reporting.''),
          bookingId = Some (id_b b),
          dateKey_a = Some dk,
          slot_a = Some (slotStr (slot b))\<rparr>)"

definition highGuestsAlert :: "string \<Rightarrow> MockBooking \<Rightarrow> AlertDefinition" where
  "highGuestsAlert dk b =
     \<lparr>id_a = ''high-guests-'' @ showInt (id_b b),
      type_a = HIGH_GUEST_COUNT,
      severity = info,
      title = ''Very large guest count'',
      message = eventTitle b @ '' has '' @ showInt (totalGuests b) @ '' guests planned.'',
      sub = Some (''Large event '' @ enDash @ '' double-check staffing, kitchen capacity, ''
         @ ''parking, and entry/exit flow.''),
      bookingId = Some (id_b b),
      dateKey_a = Some dk,
      slot_a = Some (slotStr (slot b))\<rparr>"

definition highAdvanceAlert :: "JsRuntime \<Rightarrow> string \<Rightarrow> MockBooking \<Rightarrow> AdvanceSummary \<Rightarrow> AlertDefinition" where
  "highAdvanceAlert rt dk b adv =
     \<lparr>id_a = ''high-advance-'' @ showInt (id_b b),
      type_a = HIGH_ADVANCE_VALUE,
      severity = info,
      title = ''High-value booking (advance)'',
      message = eventTitle b @ '' has an advance of Rs '' @ toLocaleString rt (amount adv)
         @ ''.'',
      sub = Some (''Destination: '' @ destinationAccount adv
         @ ''. Keep an eye on finance follow-up and final payment.''),
      bookingId = Some (id_b b),
      dateKey_a = Some dk,
      slot_a = Some (slotStr (slot b))\<rparr>"

text \<open>The body of the second loop over the bookings: the alerts it pushes, in order.\<close>

definition bookingAlerts :: "JsRuntime \<Rightarrow> jsdate \<Rightarrow> jsdate \<Rightarrow> MockBooking \<Rightarrow> AlertDefinition list" where
  "bookingAlerts rt todayStart in15Days b =
     (let d = parseEventDateLabel rt (eventDateLabel b);
          dk = dateKeyFromDate rt d;
          isSoftStatus = (status b = INQUIRY \<or> status b = TENTATIVE);
          isPast = dateLt d todayStart;
          isOpenStatus = (status b = INQUIRY \<or> status b = TENTATIVE \<or> status b = CONFIRMED);
          a = hallAGuests b;
          bb = hallBGuests b
      in (if isSoftStatus \<and> dateGe d todayStart \<and> dateLe d in15Days
          then [softFollowAlert dk b] else [])
       @ (if isPast \<and> isOpenStatus then [pastOpenAlert dk b] else [])
       @ (if missingPhone b \<or> missingAddress b then [missingContactAlert dk b] else [])
       @ (if a \<noteq> None \<or> bb \<noteq> None
          then (if totalGuests b \<noteq> 0 \<and> orZero a + orZero bb \<noteq> totalGuests b
                then [splitMismatchAlert dk b] else [])
          else [])
       @ (if totalGuests b \<ge> 1500 then [highGuestsAlert dk b] else [])
       @ (case advance b of
            None \<Rightarrow> []
          | Some adv \<Rightarrow> (if amount adv \<ge> 200000 then [highAdvanceAlert rt dk b adv] else [])))"

subsection \<open>Rule 9: complex multi-hall slot\<close>

definition complexAlert :: "string \<Rightarrow> MockBooking list \<Rightarrow> MockBooking list \<Rightarrow> AlertDefinition" where
  "complexAlert key list multiHallEvents =
     (let ps = split CHR ''|'' key;
          dk = part ps 0; slotS = part ps 1;
          labelDate = (case multiHallEvents of [] \<Rightarrow> dk | e # _ \<Rightarrow> Some (eventDateLabel e))
      in \<lparr>id_a = ''complex-multihall-'' @ tmpl dk @ ''-'' @ tmpl slotS,
          type_a = COMPLEX_MULTI_HALL_DAY,
          severity = info,
          title = ''Complex multi-hall slot'',
          message = showInt (int (length list)) @ '' events in this slot, with ''
             @ showInt (int (length multiHallEvents)) @ '' using multiple halls (''
             @ humanSlot slotS @ '' on '' @ tmpl labelDate @ '').'',
          sub = Some ''Worth reviewing allocations, timings, and movement carefully.'',
          bookingId = None,
          dateKey_a = dk,
          slot_a = slotS\<rparr>)"

definition complexAlerts :: "(string \<times> MockBooking list) list \<Rightarrow> AlertDefinition list" where
  "complexAlerts entries =
     concat (map (\<lambda>(key, list).
        if length list \<le> 1 then []
        else (let multiHallEvents = filter (\<lambda>b. length (halls b) > 1) list
              in if length multiHallEvents \<ge> 2 \<or> length list \<ge> 3
                 then [complexAlert key list multiHallEvents] else [])) entries)"

subsection \<open>The engine\<close>

definition buildAlerts :: "JsRuntime \<Rightarrow> MockBooking list \<Rightarrow> jsdate \<Rightarrow> AlertDefinition list" where
  "buildAlerts rt bookings today =
     (let todayStart = startOfDay rt today;
          in15Days = addDays todayStart 15;
          st = indexBookings rt bookings
      in capacityAlerts (hallSlotUsage st)
       @ perfAlerts (slotHallBookings st)
       @ concat (map (bookingAlerts rt todayStart in15Days) bookings)
       @ complexAlerts (daySlotBookings st))"

section \<open>The resolution store\<close>

datatype AlertResolutionStatus = ACTIVE | RESOLVED | DISMISSED

record AlertResolution =
  alertId :: string
  status_r :: AlertResolutionStatus
  note_r :: "string option"
  updatedAt :: string

record AlertWithResolution = AlertDefinition +
  resolution :: "AlertResolution option"
  effectiveStatus :: AlertResolutionStatus

text \<open>
  The store is a \<open>Record<string, AlertResolution>\<close>: a finite map from alert ids
  (the properties an object inherits from its prototype are outside the model).
  The clock (\<open>new Date().toISOString()\<close>) is the parameter \<open>now\<close>. Each operation is
  the function it passes to \<open>setResolutions\<close>, from the store before to the store after.
\<close>

text \<open>\<open>note?.trim() || undefined\<close>.\<close>

definition trimNote :: "string option \<Rightarrow> string option" where
  "trimNote nt =
     (case nt of None \<Rightarrow> None
      | Some s \<Rightarrow> (if trim s = [] then None else Some (trim s)))"

definition resolveAlert ::
  "string \<Rightarrow> string \<Rightarrow> string option \<Rightarrow> (string \<rightharpoonup> AlertResolution) \<Rightarrow> (string \<rightharpoonup> AlertResolution)" where
  "resolveAlert now aid nt prev =
     prev(aid \<mapsto>
       \<lparr>alertId = aid,
        status_r = RESOLVED,
        note_r = (case trimNote nt of
                  Some s \<Rightarrow> Some s
                | None \<Rightarrow> (case prev aid of None \<Rightarrow> None | Some r \<Rightarrow> note_r r)),
        updatedAt = now\<rparr>)"

definition dismissAlert ::
  "string \<Rightarrow> string \<Rightarrow> string option \<Rightarrow> (string \<rightharpoonup> AlertResolution) \<Rightarrow> (string \<rightharpoonup> AlertResolution)" where
  "dismissAlert now aid nt prev =
     prev(aid \<mapsto>
       \<lparr>alertId = aid, status_r = DISMISSED, note_r = trimNote nt, updatedAt = now\<rparr>)"

definition reopenAlert ::
  "string \<Rightarrow> (string \<rightharpoonup> AlertResolution) \<Rightarrow> (string \<rightharpoonup> AlertResolution)" where
  "reopenAlert aid prev = prev(aid := None)"

text \<open>The merged list \<open>alerts\<close> of the store provider.\<close>

definition alerts ::
  "AlertDefinition list \<Rightarrow> (string \<rightharpoonup> AlertResolution) \<Rightarrow> AlertWithResolution list" where
  "alerts baseAlerts resolutions =
     map (\<lambda>def.
        (let res = resolutions (id_a def);
             eff = (case res of None \<Rightarrow> ACTIVE | Some r \<Rightarrow> status_r r)
         in AlertDefinition.extend def (AlertWithResolution.fields res eff))) baseAlerts"

definition getAlertsForBooking ::
  "AlertWithResolution list \<Rightarrow> int \<Rightarrow> AlertWithResolution list" where
  "getAlertsForBooking merged bid =
     filter (\<lambda>a. bookingId a = Some bid \<and> effectiveStatus a = ACTIVE) merged"

subsection \<open>Loading the persisted store\<close>

text \<open>
  The persisted value, as \<open>JSON.parse\<close> returns it. The fields of an object are
  listed in the order in which \<open>Object.entries\<close> enumerates them.
\<close>

datatype json =
    JNull
  | JBool bool
  | JNum int
  | JStr string
  | JArr "json list"
  | JObj "(string \<times> json) list"







section \<open>Instances of the runtime\<close>

text \<open>
  Instances of the runtime parameters, to run the engine on concrete bookings: one in
  the UTC zone and one in a zone that sets its clocks back by an hour on 2 Nov 2025.
  Both read the labels of the application's form, \<open>27 Nov 2025\<close>, with the rules of
  the V8 engine for a label made of a number, a month word and a number separated by
  spaces, and group numbers in thousands.
\<close>

definition daysFromCivil :: "int \<Rightarrow> int \<Rightarrow> int \<Rightarrow> int" where
  "daysFromCivil y m d =
     (let y1 = (if m \<le> 2 then y - 1 else y);
          era = y1 div 400;
          yoe = y1 - era * 400;
          doy = (153 * (if m > 2 then m - 3 else m + 9) + 2) div 5 + d - 1;
          doe = yoe * 365 + yoe div 4 - yoe div 100 + doy
      in era * 146097 + doe - 719468)"

definition civilFromDays :: "int \<Rightarrow> int \<times> int \<times> int" where
  "civilFromDays z =
     (let z1 = z + 719468;
          era = z1 div 146097;
          doe = z1 - era * 146097;
          yoe = (doe - doe div 1460 + doe div 36524 - doe div 146096) div 365;
          doy = doe - (365 * yoe + yoe div 4 - yoe div 100);
          mp = (5 * doy + 2) div 153;
          d = doy - (153 * mp + 2) div 5 + 1;
          m = (if mp < 10 then mp + 3 else mp - 9);
          y = yoe + era * 400
      in (if m \<le> 2 then y + 1 else y, m, d))"

text \<open>
  The time on the wall clock at the start of day \<open>dd\<close> of month \<open>mon\<close> (from 0) of year
  \<open>y\<close>, in milliseconds; a month or a day out of range carries over.
\<close>

definition wallTime :: "int \<Rightarrow> int \<Rightarrow> int \<Rightarrow> int" where
  "wallTime y mon dd =
     (daysFromCivil (y + mon div 12) (mon mod 12 + 1) 1 + (dd - 1)) * 86400000"

text \<open>The year of \<open>new Date(y, m, d)\<close>: a year from 0 to 99 is one of the 1900s.\<close>

definition fullYear :: "int \<Rightarrow> int" where
  "fullYear y = (if 0 \<le> y \<and> y \<le> 99 then 1900 + y else y)"

subsection \<open>Reading a label\<close>

definition digitVal :: "char \<Rightarrow> int option" where
  "digitVal c = map_of (zip ''0123456789'' [0, 1, 2, 3, 4, 5, 6, 7, 8, 9]) c"

text \<open>An unsigned decimal number.\<close>

definition numberOf :: "string \<Rightarrow> int option" where
  "numberOf ds =
     (if ds = [] \<or> list_ex (\<lambda>c. digitVal c = None) ds then None
      else Some (foldl (\<lambda>n c. 10 * n + (case digitVal c of None \<Rightarrow> 0 | Some v \<Rightarrow> v)) 0 ds))"

definition lowerCase :: "char \<Rightarrow> char" where
  "lowerCase c =
     (case map_of (zip ''ABCDEFGHIJKLMNOPQRSTUVWXYZ'' ''abcdefghijklmnopqrstuvwxyz'') c of
        None \<Rightarrow> c
      | Some l \<Rightarrow> l)"

text \<open>
  A month word: ASCII characters from \<open>A\<close> on, of which the first three, in any case,
  are those of a month name; what follows them is not looked at.
\<close>

definition monthIndex :: "string \<Rightarrow> int option" where
  "monthIndex w =
     (if list_ex (\<lambda>c. of_char c < (65 :: nat) \<or> (128 :: nat) \<le> of_char c) w then None
      else map_of (zip [''jan'', ''feb'', ''mar'', ''apr'', ''may'', ''jun'',
                        ''jul'', ''aug'', ''sep'', ''oct'', ''nov'', ''dec'']
                       [0, 1, 2, 3, 4, 5, 6, 7, 8, 9, 10, 11]) (map lowerCase (take 3 w)))"

definition isDay :: "int \<Rightarrow> bool" where
  "isDay n = (1 \<le> n \<and> n \<le> 31)"

text \<open>
  The year, month (from 0) and day of a label. The first number is the day when it is
  one (1 to 31), else it is the year and the second number the day; a year up to 49 is
  one of the 2000s and a year from 50 to 99 one of the 1900s; the day has to be one, and
  a day beyond the end of its month carries over when the time is computed. A label of
  any other form is an invalid date here; an actual engine reads more forms.
\<close>

definition parseFields :: "string \<Rightarrow> (int \<times> int \<times> int) option" where
  "parseFields label =
     (case filter (\<lambda>p. p \<noteq> []) (split CHR '' '' label) of
        [a, w, b] \<Rightarrow>
          (case (numberOf a, monthIndex w, numberOf b) of
             (Some n1, Some m, Some n2) \<Rightarrow>
               (let day = (if isDay n1 then n1 else n2);
                    year = (if isDay n1 then n2 else n1);
                    year1 = (if 0 \<le> year \<and> year \<le> 49 then year + 2000
                             else if 50 \<le> year \<and> year \<le> 99 then year + 1900
                             else year)
                in if isDay day then Some (year1, m, day) else None)
           | _ \<Rightarrow> None)
      | _ \<Rightarrow> None)"

subsection \<open>The UTC zone\<close>

definition utcYMD :: "int \<Rightarrow> int \<times> int \<times> int" where
  "utcYMD t = (case civilFromDays (t div 86400000) of (y, m, d) \<Rightarrow> (y, m - 1, d))"

definition utcDate :: "int \<Rightarrow> int \<Rightarrow> int \<Rightarrow> jsdate" where
  "utcDate y mon dd = timeClip (wallTime (fullYear y) mon dd)"

definition parseLabel :: "string \<Rightarrow> jsdate" where
  "parseLabel label =
     (case parseFields label of
        None \<Rightarrow> None
      | Some (y, m, d) \<Rightarrow> timeClip (wallTime y m d))"

fun groupThousands :: "string \<Rightarrow> string" where
  "groupThousands (a # b # c # d # ds) = a # b # c # CHR '','' # groupThousands (d # ds)"
| "groupThousands ds = ds"

definition localeNumber :: "int \<Rightarrow> string" where
  "localeNumber n =
     (if n < 0 then CHR ''-'' # rev (groupThousands (rev (showNat (nat (- n)))))
      else rev (groupThousands (rev (showNat (nat n)))))"

definition utcRuntime :: JsRuntime where
  "utcRuntime = \<lparr>dateParse = parseLabel, localYMD = utcYMD, localDate = utcDate,
                  toLocaleString = localeNumber\<rparr>"

subsection \<open>A zone with a clock change\<close>

text \<open>
  The zone of New York around the end of its summer time in 2025: four hours behind
  UTC until 2 Nov 2025, 06:00 UTC, when the clocks go back from 02:00 to 01:00, and
  five hours behind from then on. \<open>eastInstant\<close> is the time value of a time on the
  wall clock (the earlier one for the hour that the clocks show twice).
\<close>

definition fallBack :: int where
  "fallBack = 1762063200000"

definition eastOffset :: "int \<Rightarrow> int" where
  "eastOffset t = (if t < fallBack then - 14400000 else - 18000000)"

definition eastInstant :: "int \<Rightarrow> int" where
  "eastInstant w = (if w + 14400000 < fallBack then w + 14400000 else w + 18000000)"

definition eastYMD :: "int \<Rightarrow> int \<times> int \<times> int" where
  "eastYMD t = utcYMD (t + eastOffset t)"

definition eastDate :: "int \<Rightarrow> int \<Rightarrow> int \<Rightarrow> jsdate" where
  "eastDate y mon dd = timeClip (eastInstant (wallTime (fullYear y) mon dd))"

definition eastParse :: "string \<Rightarrow> jsdate" where
  "eastParse label =
     (case parseFields label of
        None \<Rightarrow> None
      | Some (y, m, d) \<Rightarrow> timeClip (eastInstant (wallTime y m d)))"

definition eastRuntime :: JsRuntime where
  "eastRuntime = \<lparr>dateParse = eastParse, localYMD = eastYMD, localDate = eastDate,
                   toLocaleString = localeNumber\<rparr>"

subsection \<open>Another state of the runtime\<close>


text \<open>A booking with every optional field absent, to build concrete bookings from.\<close>

definition blankBooking :: MockBooking where
  "blankBooking =
     \<lparr>id_b = 0, bookingRef = [], eventTitle = [], nameplateText = None,
      eventDateLabel = [], slot = DINNER, totalGuests = 0, hallAGuests = None,
      hallBGuests = None, status = CONFIRMED, customerName = [], customerPhone = [],
      customerWhatsapp = None, familyOrCompanyName = None, customerAddress = None,
      customerReference = None, hasPerformance = False, performanceDescription = None,
      halls = [], internalNote = None, advance = None, isDeleted = None,
      deletedAt = None, deletedBy = None, deletedReason = None\<rparr>"

definition hallAlloc :: "HallCode \<Rightarrow> int \<Rightarrow> int \<Rightarrow> HallAllocation" where
  "hallAlloc h cap g =
     \<lparr>hallCode = h, hallName = ''Hall '' @ hallCodeStr h, capacity = cap, guestsHere = g,
      guestsInOtherHallsText = None\<rparr>"

section \<open>Concrete inputs\<close>

text \<open>The reference time: 15 Nov 2025, 09:46:40 UTC.\<close>

definition refTime :: jsdate where
  "refTime = Some 1763200000000"

text \<open>Booking \<open>i\<close> on 15 Nov 2025, dinner, with \<open>g\<close> guests in hall A (capacity 1000).\<close>

definition dinnerA :: "int \<Rightarrow> int \<Rightarrow> MockBooking" where
  "dinnerA i g =
     blankBooking\<lparr>id_b := i, eventDateLabel := ''15 Nov 2025'', slot := DINNER,
       totalGuests := g, halls := [hallAlloc HallA 1000 g], customerPhone := ''0300-1110001'',
       customerAddress := Some ''Clifton, Karachi''\<rparr>"

definition capIdA :: string where
  "capIdA = ''cap-2025-11-15-DINNER-A''"

definition stamp1 :: string where
  "stamp1 = ''2025-11-15T10:00:00.000Z''"

definition stamp2 :: string where
  "stamp2 = ''2025-11-15T11:30:00.000Z''"

text \<open>A note between a no-break space (U+00A0) and a line separator (U+2028).\<close>

definition paddedNote :: string where
  "paddedNote = [CHR 0xC2, CHR 0xA0] @ ''approved'' @ [CHR 0xE2, CHR 0x80, CHR 0xA8]"


definition threeDinners :: "MockBooking list" where
  "threeDinners = [dinnerA 1 400, dinnerA 2 350, dinnerA 3 350]"

text \<open>
  Three dinners in hall A, the last two with a performance and with the most guests.
\<close>

definition galaDinners :: "MockBooking list" where
  "galaDinners =
     [dinnerA 1 400, (dinnerA 2 450)\<lparr>hasPerformance := True\<rparr>,
      (dinnerA 3 450)\<lparr>hasPerformance := True\<rparr>]"

text \<open>A tentative booking \<open>i\<close> with a split entered for hall A only.\<close>

definition tentativeOn :: "int \<Rightarrow> string \<Rightarrow> MockBooking" where
  "tentativeOn i label =
     blankBooking\<lparr>id_b := i, eventDateLabel := label, slot := LUNCH, status := TENTATIVE,
       totalGuests := 500, hallAGuests := Some 200, halls := [hallAlloc HallA 1000 200],
       customerPhone := ''0300-1110001'', customerAddress := Some ''Clifton, Karachi''\<rparr>"




text \<open>A reference time in the night of 15 Nov 2025, 02:00 UTC, the evening before in
  the zone with the clock change.\<close>

definition nightRef :: jsdate where
  "nightRef = Some 1763172000000"

text \<open>A single booking with a performance that lists hall A twice.\<close>

definition perfSolo :: MockBooking where
  "perfSolo =
     blankBooking\<lparr>id_b := 7, eventTitle := ''Mehndi'', eventDateLabel := ''15 Nov 2025'',
       slot := DINNER, totalGuests := 500, hasPerformance := True,
       halls := [hallAlloc HallA 1000 300, hallAlloc HallA 1000 200],
       customerPhone := ''0300-1110001'', customerAddress := Some ''Clifton, Karachi''\<rparr>"








section \<open>The vocabulary of the claims\<close>

text \<open>The date key under which the engine files a booking.\<close>

definition bookingDateKey :: "JsRuntime \<Rightarrow> MockBooking \<Rightarrow> string" where
  "bookingDateKey rt b = dateKeyFromDate rt (parseEventDateLabel rt (eventDateLabel b))"


text \<open>
  The start of the calendar day \<open>n\<close> days after the day of the reference time:
  \<open>new Date(y, m, d + n)\<close> for the local year, month and day of the reference time.
\<close>

definition calendarDay :: "JsRuntime \<Rightarrow> jsdate \<Rightarrow> int \<Rightarrow> jsdate" where
  "calendarDay rt today n =
     (case today of None \<Rightarrow> None
      | Some t \<Rightarrow> (case localYMD rt t of (y, mon, dd) \<Rightarrow> localDate rt y mon (dd + n)))"





text \<open>The ids of the three group rules, for a date key, a slot and a hall.\<close>

definition capacityAlertId :: "string \<Rightarrow> Slot \<Rightarrow> HallCode \<Rightarrow> string" where
  "capacityAlertId dk s h = ''cap-'' @ dk @ ''-'' @ slotStr s @ ''-'' @ hallCodeStr h"

definition perfAlertId :: "string \<Rightarrow> Slot \<Rightarrow> HallCode \<Rightarrow> string" where
  "perfAlertId dk s h = ''perf-conflict-'' @ dk @ ''-'' @ slotStr s @ ''-'' @ hallCodeStr h"

definition complexAlertId :: "string \<Rightarrow> Slot \<Rightarrow> string" where
  "complexAlertId dk s = ''complex-multihall-'' @ dk @ ''-'' @ slotStr s"




text \<open>
  The group of a (date key, slot, hall) key: the bookings on that date and slot that use
  the hall. The engine's list for the key has one entry per hall allocation instead.
\<close>

definition bookingsAt ::
  "JsRuntime \<Rightarrow> MockBooking list \<Rightarrow> string \<Rightarrow> Slot \<Rightarrow> HallCode \<Rightarrow> MockBooking list" where
  "bookingsAt rt bookings dk s h =
     filter (\<lambda>b. bookingDateKey rt b = dk \<and> slot b = s
                 \<and> list_ex (\<lambda>a. hallCode a = h) (halls b)) bookings"

definition groupEntries ::
  "JsRuntime \<Rightarrow> MockBooking list \<Rightarrow> string \<Rightarrow> Slot \<Rightarrow> HallCode \<Rightarrow> MockBooking list" where
  "groupEntries rt bookings dk s h =
     concat (map (\<lambda>b. if bookingDateKey rt b = dk \<and> slot b = s
                        then map (\<lambda>a. b) (filter (\<lambda>a. hallCode a = h) (halls b)) else [])
                 bookings)"

text \<open>
  The hall allocations filed under a key, each with its booking, in the order in which
  the engine meets them.
\<close>

definition allocPairsAt ::
  "JsRuntime \<Rightarrow> MockBooking list \<Rightarrow> string \<Rightarrow> Slot \<Rightarrow> HallCode \<Rightarrow> (MockBooking \<times> HallAllocation) list" where
  "allocPairsAt rt bookings dk s h =
     concat (map (\<lambda>b. if bookingDateKey rt b = dk \<and> slot b = s
                        then map (\<lambda>a. (b, a)) (filter (\<lambda>a. hallCode a = h) (halls b)) else [])
                 bookings)"

text \<open>
  The representative booking of a key for the capacity rule: the booking of the
  allocation with the most guests, the last such allocation when several have the most;
  none when every allocation of the key has a negative number of guests.
\<close>

definition sampleAt ::
  "JsRuntime \<Rightarrow> MockBooking list \<Rightarrow> string \<Rightarrow> Slot \<Rightarrow> HallCode \<Rightarrow> int option" where
  "sampleAt rt bookings dk s h =
     (let evs = allocPairsAt rt bookings dk s h;
          most = Max (set (map (\<lambda>e. guestsHere (snd e)) evs))
      in if evs = [] \<or> most < 0 then None
         else Some (id_b (fst (last (filter (\<lambda>e. guestsHere (snd e) = most) evs)))))"

text \<open>
  The representative booking of a key for the performance rule: the first booking of
  the group, in booking order, that has a performance.
\<close>

definition performerAt ::
  "JsRuntime \<Rightarrow> MockBooking list \<Rightarrow> string \<Rightarrow> Slot \<Rightarrow> HallCode \<Rightarrow> int option" where
  "performerAt rt bookings dk s h =
     map_option id_b (find hasPerformance (bookingsAt rt bookings dk s h))"

text \<open>The ids the six per-booking rules can give to the alerts of a booking.\<close>

definition bookingIds :: "MockBooking \<Rightarrow> string list" where
  "bookingIds b =
     [''soft-follow-'' @ showInt (id_b b), ''past-open-'' @ showInt (id_b b),
      ''missing-contact-'' @ showInt (id_b b), ''split-mismatch-'' @ showInt (id_b b),
      ''high-guests-'' @ showInt (id_b b), ''high-advance-'' @ showInt (id_b b)]"








section \<open>Auxiliary notions of the proofs\<close>

text \<open>Reading back the decimal digits of a number.\<close>

definition digitOf :: "char \<Rightarrow> nat" where
  "digitOf c = length (takeWhile (\<lambda>d. d \<noteq> c) ''0123456789'')"

definition readNat :: "string \<Rightarrow> nat" where
  "readNat s = foldl (\<lambda>a c. 10 * a + digitOf c) 0 s"

text \<open>
  The pattern of the three maps of the indexing pass: each event updates the value under
  its key from the value stored before. \<open>accumulate\<close> is what one key sees.
\<close>

definition aggregate ::
  "('v option \<Rightarrow> 'x \<Rightarrow> 'v) \<Rightarrow> (string \<times> 'v) list \<Rightarrow> (string \<times> 'x) list \<Rightarrow> (string \<times> 'v) list" where
  "aggregate f m evs = foldl (\<lambda>m e. mapSet (fst e) (f (mapGet m (fst e)) (snd e)) m) m evs"

definition accumulate :: "('v option \<Rightarrow> 'x \<Rightarrow> 'v) \<Rightarrow> 'v option \<Rightarrow> 'x list \<Rightarrow> 'v option" where
  "accumulate f v xs = foldl (\<lambda>v x. Some (f v x)) v xs"

definition pushBooking :: "MockBooking list option \<Rightarrow> MockBooking \<Rightarrow> MockBooking list" where
  "pushBooking prev b = (case prev of None \<Rightarrow> [] | Some l \<Rightarrow> l) @ [b]"

text \<open>The updates of the usage map and of the hall lists, as functions of an event.\<close>

definition usageOf :: "HallSlotUsage option \<Rightarrow> MockBooking \<times> HallAllocation \<Rightarrow> HallSlotUsage" where
  "usageOf prev e = nextUsage prev (fst e) (snd e)"

definition listOf :: "MockBooking list option \<Rightarrow> MockBooking \<times> HallAllocation \<Rightarrow> MockBooking list" where
  "listOf prev e = pushBooking prev (fst e)"

definition hallEvents :: "string \<Rightarrow> MockBooking \<Rightarrow> HallAllocation list \<Rightarrow> (string \<times> MockBooking \<times> HallAllocation) list" where
  "hallEvents dk b hs = map (\<lambda>h. (hallSlotKey dk (slot b) (hallCode h), b, h)) hs"

text \<open>The events of the indexing pass: one per hall allocation, one per booking.\<close>

definition allocEvents ::
  "JsRuntime \<Rightarrow> MockBooking list \<Rightarrow> (string \<times> MockBooking \<times> HallAllocation) list" where
  "allocEvents rt bookings =
     concat (map (\<lambda>b. map (\<lambda>h. (hallSlotKey (bookingDateKey rt b) (slot b) (hallCode h), b, h))
                          (halls b)) bookings)"

definition dayEvents :: "JsRuntime \<Rightarrow> MockBooking list \<Rightarrow> (string \<times> MockBooking) list" where
  "dayEvents rt bookings = map (\<lambda>b. (daySlotKey (bookingDateKey rt b) (slot b), b)) bookings"

section \<open>Numbers and keys as strings\<close>

lemma digits_table:
  "list_all (\<lambda>n. digitOf (digitChar n) = n \<and> digitChar n \<in> set ''0123456789'') [0..<10]"
  by code_simp

lemma digitOf_digitChar: "n < 10 \<Longrightarrow> digitOf (digitChar n) = n"
  using digits_table by (simp add: list_all_iff)

lemma digitChar_in: "n < 10 \<Longrightarrow> digitChar n \<in> set ''0123456789''"
  using digits_table by (simp add: list_all_iff del: set_simps)

lemma readNat_snoc: "readNat (s @ [c]) = 10 * readNat s + digitOf c"
  by (simp add: readNat_def)

lemma readNat_showNat: "readNat (showNat n) = n"
proof (induction n rule: showNat.induct)
  case (1 n)
  show ?case
  proof (cases "n < 10")
    case True
    then show ?thesis by (simp add: showNat.simps [of n] readNat_def digitOf_digitChar)
  next
    case False
    then show ?thesis
      using 1 by (simp add: showNat.simps [of n] readNat_snoc digitOf_digitChar)
  qed
qed

lemma showNat_inj: "showNat m = showNat n \<Longrightarrow> m = n"
  by (metis readNat_showNat)

lemma set_showNat: "set (showNat n) \<subseteq> set ''0123456789''"
proof (induction n rule: showNat.induct)
  case (1 n)
  show ?case
  proof (cases "n < 10")
    case True
    then show ?thesis using digitChar_in [of n] by (simp add: showNat.simps [of n])
  next
    case False
    then show ?thesis
      using 1 digitChar_in [of "n mod 10"] by (simp add: showNat.simps [of n])
  qed
qed

lemma showNat_nonempty: "showNat n \<noteq> []"
  by (cases "n < 10") (simp_all add: showNat.simps [of n])

lemma notin_showNat: "c \<notin> set ''0123456789'' \<Longrightarrow> c \<notin> set (showNat n)"
  using set_showNat [of n] by blast

lemma notin_showInt:
  assumes "c \<notin> set ''0123456789''" and "c \<noteq> CHR ''-''"
  shows "c \<notin> set (showInt i)"
proof (cases "i < 0")
  case True
  then have "set (showInt i) = insert CHR ''-'' (set (showNat (nat (- i))))"
    by (simp add: showInt_def)
  with assms notin_showNat [OF assms(1), of "nat (- i)"] show ?thesis by blast
next
  case False
  then have "set (showInt i) = set (showNat (nat i))" by (simp add: showInt_def)
  with notin_showNat [OF assms(1), of "nat i"] show ?thesis by blast
qed

lemma nodash_showNat: "showNat n \<noteq> CHR ''-'' # s"
proof
  assume "showNat n = CHR ''-'' # s"
  then have "CHR ''-'' \<in> set (showNat n)" by simp
  moreover have "CHR ''-'' \<notin> set (showNat n)" by (rule notin_showNat) simp
  ultimately show False by blast
qed

lemma showInt_inj: "showInt i = showInt j \<Longrightarrow> i = j"
proof -
  assume eq: "showInt i = showInt j"
  consider (nn) "i < 0" "j < 0" | (np) "i < 0" "\<not> j < 0" | (pn) "\<not> i < 0" "j < 0"
    | (pp) "\<not> i < 0" "\<not> j < 0" by blast
  then show ?thesis
  proof cases
    case nn
    with eq have "showNat (nat (- i)) = showNat (nat (- j))" by (simp add: showInt_def)
    then have "nat (- i) = nat (- j)" by (rule showNat_inj)
    with nn show ?thesis by simp
  next
    case np
    with eq have "showNat (nat j) = CHR ''-'' # showNat (nat (- i))" by (simp add: showInt_def)
    with nodash_showNat show ?thesis by blast
  next
    case pn
    with eq have "showNat (nat i) = CHR ''-'' # showNat (nat (- j))" by (simp add: showInt_def)
    with nodash_showNat show ?thesis by blast
  next
    case pp
    with eq have "showNat (nat i) = showNat (nat j)" by (simp add: showInt_def)
    then have "nat i = nat j" by (rule showNat_inj)
    with pp show ?thesis by simp
  qed
qed

lemma set_concat_replicate: "set (concat (replicate k p)) \<subseteq> set p"
  by (induction k) auto

lemma set_padStart: "set (padStart n p s) \<subseteq> set s \<union> set p"
proof -
  have "set (take k (concat (replicate k p))) \<subseteq> set p" for k
    using set_take_subset [of k "concat (replicate k p)"] set_concat_replicate [of k p]
    by blast
  then show ?thesis by (auto simp: padStart_def)
qed

lemma notin_padStart: "c \<notin> set s \<Longrightarrow> c \<notin> set p \<Longrightarrow> c \<notin> set (padStart n p s)"
  using set_padStart [of n p s] by blast

lemma split_nosep: "c \<notin> set s \<Longrightarrow> split c s = [s]"
  by (induction s) auto

lemma split_append: "c \<notin> set s \<Longrightarrow> split c (s @ c # t) = s # split c t"
  by (induction s) auto

lemma slotStr_nobar: "CHR ''|'' \<notin> set (slotStr s)"
  by (cases s) (simp_all add: slotStr_def)

lemma hallCodeStr_nobar: "CHR ''|'' \<notin> set (hallCodeStr h)"
  by (cases h) (simp_all add: hallCodeStr_def)

lemma key3_inj:
  assumes "dk @ c # slotStr s @ c # hallCodeStr h = dk' @ c # slotStr s' @ c # hallCodeStr h'"
  shows "dk = dk' \<and> s = s' \<and> h = h'"
proof -
  from assms have "rev (dk @ c # slotStr s @ c # hallCodeStr h)
      = rev (dk' @ c # slotStr s' @ c # hallCodeStr h')" by simp
  then show ?thesis
    by (cases s; cases s'; cases h; cases h'; simp add: slotStr_def hallCodeStr_def)
qed

lemma key2_inj:
  assumes "dk @ c # slotStr s = dk' @ c # slotStr s'"
  shows "dk = dk' \<and> s = s'"
proof -
  from assms have "rev (dk @ c # slotStr s) = rev (dk' @ c # slotStr s')" by simp
  then show ?thesis
    by (cases s; cases s'; simp add: slotStr_def)
qed

lemma hallSlotKey_inj:
  "hallSlotKey dk s h = hallSlotKey dk' s' h' \<longleftrightarrow> dk = dk' \<and> s = s' \<and> h = h'"
  using key3_inj [of dk "CHR ''|''" s h dk' s' h'] by (auto simp: hallSlotKey_def)


lemma capacityAlertId_inj:
  "capacityAlertId dk s h = capacityAlertId dk' s' h' \<longleftrightarrow> dk = dk' \<and> s = s' \<and> h = h'"
  using key3_inj [of dk "CHR ''-''" s h dk' s' h'] by (auto simp: capacityAlertId_def)

lemma perfAlertId_inj:
  "perfAlertId dk s h = perfAlertId dk' s' h' \<longleftrightarrow> dk = dk' \<and> s = s' \<and> h = h'"
  using key3_inj [of dk "CHR ''-''" s h dk' s' h'] by (auto simp: perfAlertId_def)

lemma complexAlertId_inj:
  "complexAlertId dk s = complexAlertId dk' s' \<longleftrightarrow> dk = dk' \<and> s = s'"
  using key2_inj [of dk "CHR ''-''" s dk' s'] by (auto simp: complexAlertId_def)

lemma dateKey_nobar: "CHR ''|'' \<notin> set (dateKey rt d)"
proof (cases d)
  case None
  then show ?thesis by (simp add: dateKey_def padStart_def)
next
  case (Some t)
  obtain y mon dd where ymd: "localYMD rt t = (y, mon, dd)" by (cases "localYMD rt t")
  have n: "CHR ''|'' \<notin> set (showInt i)" for i by (rule notin_showInt) simp_all
  have p: "CHR ''|'' \<notin> set (padStart 2 ''0'' (showInt i))" for i
    by (rule notin_padStart) (simp_all add: n)
  show ?thesis by (simp add: dateKey_def Some ymd Let_def n p)
qed

lemma bookingDateKey_nobar: "CHR ''|'' \<notin> set (bookingDateKey rt b)"
  by (simp add: bookingDateKey_def dateKeyFromDate_def dateKey_nobar)

lemma split_hallSlotKey:
  "CHR ''|'' \<notin> set dk \<Longrightarrow>
     split CHR ''|'' (hallSlotKey dk s h) = [dk, slotStr s, hallCodeStr h]"
  using split_append [of "CHR ''|''" dk "slotStr s @ ''|'' @ hallCodeStr h"]
    split_append [of "CHR ''|''" "slotStr s" "hallCodeStr h"]
    split_nosep [of "CHR ''|''" "hallCodeStr h"] slotStr_nobar [of s] hallCodeStr_nobar [of h]
  by (simp add: hallSlotKey_def)

lemma split_daySlotKey:
  "CHR ''|'' \<notin> set dk \<Longrightarrow> split CHR ''|'' (daySlotKey dk s) = [dk, slotStr s]"
  using split_append [of "CHR ''|''" dk "slotStr s"]
    split_nosep [of "CHR ''|''" "slotStr s"] slotStr_nobar [of s]
  by (simp add: daySlotKey_def)

section \<open>Maps as association lists\<close>

lemma mapGet_mapSet: "mapGet (mapSet k v m) k' = (if k' = k then Some v else mapGet m k')"
  by (induction m) (auto simp: mapGet_def)

lemma keys_mapSet: "fst ` set (mapSet k v m) = insert k (fst ` set m)"
  by (induction m) auto

lemma distinct_mapSet: "distinct (map fst m) \<Longrightarrow> distinct (map fst (mapSet k v m))"
proof (induction m)
  case Nil
  then show ?case by simp
next
  case (Cons e m)
  then show ?case using keys_mapSet [of k v m] by (auto simp: image_iff)
qed

lemma aggregate_Nil: "aggregate f m [] = m"
  by (simp add: aggregate_def)

lemma aggregate_Cons:
  "aggregate f m (e # evs) = aggregate f (mapSet (fst e) (f (mapGet m (fst e)) (snd e)) m) evs"
  by (simp add: aggregate_def)

lemma aggregate_append: "aggregate f m (xs @ ys) = aggregate f (aggregate f m xs) ys"
  by (simp add: aggregate_def)

lemma accumulate_Nil: "accumulate f v [] = v"
  by (simp add: accumulate_def)

lemma accumulate_Cons: "accumulate f v (x # xs) = accumulate f (Some (f v x)) xs"
  by (simp add: accumulate_def)

lemma mapGet_aggregate:
  "mapGet (aggregate f m evs) k =
     accumulate f (mapGet m k) (map snd (filter (\<lambda>e. fst e = k) evs))"
proof (induction evs arbitrary: m)
  case Nil
  then show ?case by (simp add: aggregate_Nil accumulate_def)
next
  case (Cons e evs)
  show ?case
    by (simp add: aggregate_Cons Cons mapGet_mapSet accumulate_def)
qed

lemma keys_aggregate: "fst ` set (aggregate f m evs) = fst ` set m \<union> fst ` set evs"
proof (induction evs arbitrary: m)
  case Nil
  then show ?case by (simp add: aggregate_Nil)
next
  case (Cons e evs)
  show ?case by (simp add: aggregate_Cons Cons keys_mapSet)
qed

lemma distinct_aggregate:
  "distinct (map fst m) \<Longrightarrow> distinct (map fst (aggregate f m evs))"
proof (induction evs arbitrary: m)
  case Nil
  then show ?case by (simp add: aggregate_Nil)
next
  case (Cons e evs)
  then show ?case by (simp add: aggregate_Cons distinct_mapSet)
qed

lemma mapGet_member:
  "distinct (map fst m) \<Longrightarrow> (k, v) \<in> set m \<longleftrightarrow> mapGet m k = Some v"
  by (simp add: mapGet_def)

lemma entries_eq:
  assumes "distinct (map fst m)" "e \<in> set m" "e' \<in> set m" "fst e = fst e'"
  shows "e = e'"
proof -
  from assms(1) have "inj_on fst (set m)" by (simp add: distinct_map)
  with assms(2-4) show ?thesis by (auto dest: inj_onD)
qed

lemma distinct_entries: "distinct (map fst m) \<Longrightarrow> distinct m"
  by (simp add: distinct_map)

lemma count_key:
  "distinct (map fst m) \<Longrightarrow>
     length (filter (\<lambda>e. fst e = k \<and> P (snd e)) m) =
       (case mapGet m k of None \<Rightarrow> 0 | Some v \<Rightarrow> if P v then 1 else 0)"
proof (induction m)
  case Nil
  then show ?case by (simp add: mapGet_def)
next
  case (Cons e m)
  show ?case
  proof (cases "fst e = k")
    case True
    with Cons.prems have "k \<notin> fst ` set m" by auto
    then have "filter (\<lambda>e. fst e = k \<and> P (snd e)) m = []"
      by (auto simp: filter_empty_conv)
    with True show ?thesis by (simp add: mapGet_def)
  next
    case False
    with Cons show ?thesis by (simp add: mapGet_def)
  qed
qed

lemma accumulate_pushBooking:
  "accumulate pushBooking v xs =
     (if xs = [] then v else Some ((case v of None \<Rightarrow> [] | Some l \<Rightarrow> l) @ xs))"
proof (induction xs arbitrary: v)
  case Nil
  then show ?case by (simp add: accumulate_def)
next
  case (Cons x xs)
  have "accumulate pushBooking v (x # xs)
      = accumulate pushBooking (Some ((case v of None \<Rightarrow> [] | Some l \<Rightarrow> l) @ [x])) xs"
    by (simp add: accumulate_def pushBooking_def)
  then show ?case by (simp add: Cons)
qed

section \<open>The indexing pass as three aggregations\<close>

lemma hallStep_fields:
  "hallSlotUsage (hallStep dk b st hall) =
     aggregate usageOf (hallSlotUsage st) (hallEvents dk b [hall])"
  "slotHallBookings (hallStep dk b st hall) =
     aggregate listOf (slotHallBookings st) (hallEvents dk b [hall])"
  "daySlotBookings (hallStep dk b st hall) = daySlotBookings st"
  by (simp_all add: hallStep_def Let_def aggregate_def usageOf_def listOf_def pushBooking_def
      hallEvents_def)

lemma foldl_hallStep_fields:
  "hallSlotUsage (foldl (hallStep dk b) st hs) =
     aggregate usageOf (hallSlotUsage st) (hallEvents dk b hs)
   \<and> slotHallBookings (foldl (hallStep dk b) st hs) =
     aggregate listOf (slotHallBookings st) (hallEvents dk b hs)
   \<and> daySlotBookings (foldl (hallStep dk b) st hs) = daySlotBookings st"
proof (induction hs arbitrary: st)
  case Nil
  then show ?case by (simp add: aggregate_Nil hallEvents_def)
next
  case (Cons h hs)
  have ev: "hallEvents dk b (h # hs) = hallEvents dk b [h] @ hallEvents dk b hs"
    by (simp add: hallEvents_def)
  show ?case
    by (simp add: Cons hallStep_fields ev aggregate_append)
qed

lemma allocEvents_Cons:
  "allocEvents rt (b # bs) = hallEvents (bookingDateKey rt b) b (halls b) @ allocEvents rt bs"
  by (simp add: allocEvents_def hallEvents_def)

lemma bookingStep_fields:
  "hallSlotUsage (bookingStep rt st b) =
     aggregate usageOf (hallSlotUsage st) (hallEvents (bookingDateKey rt b) b (halls b))
   \<and> slotHallBookings (bookingStep rt st b) =
     aggregate listOf (slotHallBookings st) (hallEvents (bookingDateKey rt b) b (halls b))
   \<and> daySlotBookings (bookingStep rt st b) =
     aggregate pushBooking (daySlotBookings st) (dayEvents rt [b])"
  by (simp add: bookingStep_def Let_def foldl_hallStep_fields bookingDateKey_def dayEvents_def
      aggregate_def pushBooking_def)

lemma foldl_bookingStep_fields:
  "hallSlotUsage (foldl (bookingStep rt) st bs) =
     aggregate usageOf (hallSlotUsage st) (allocEvents rt bs)
   \<and> slotHallBookings (foldl (bookingStep rt) st bs) =
     aggregate listOf (slotHallBookings st) (allocEvents rt bs)
   \<and> daySlotBookings (foldl (bookingStep rt) st bs) =
     aggregate pushBooking (daySlotBookings st) (dayEvents rt bs)"
proof (induction bs arbitrary: st)
  case Nil
  then show ?case by (simp add: aggregate_Nil allocEvents_def dayEvents_def)
next
  case (Cons b bs)
  have dv: "dayEvents rt (b # bs) = dayEvents rt [b] @ dayEvents rt bs"
    by (simp add: dayEvents_def)
  show ?case
    by (simp add: Cons bookingStep_fields allocEvents_Cons dv aggregate_append)
qed

lemma indexBookings_fields:
  "hallSlotUsage (indexBookings rt bs) = aggregate usageOf [] (allocEvents rt bs)"
  "slotHallBookings (indexBookings rt bs) = aggregate listOf [] (allocEvents rt bs)"
  "daySlotBookings (indexBookings rt bs) = aggregate pushBooking [] (dayEvents rt bs)"
  by (simp_all add: indexBookings_def foldl_bookingStep_fields)

lemma keys_allocEvents:
  "k \<in> fst ` set (allocEvents rt bs) \<longleftrightarrow>
     (\<exists>b \<in> set bs. \<exists>a \<in> set (halls b).
        k = hallSlotKey (bookingDateKey rt b) (slot b) (hallCode a))"
  by (auto simp: allocEvents_def image_iff)

lemma allocEvents_mem:
  "e \<in> set (allocEvents rt bs) \<Longrightarrow> fst (snd e) \<in> set bs \<and> snd (snd e) \<in> set (halls (fst (snd e)))"
  by (auto simp: allocEvents_def)

lemma usage_keys:
  assumes "e \<in> set (hallSlotUsage (indexBookings rt bs))"
  shows "\<exists>b \<in> set bs. \<exists>a \<in> set (halls b).
           fst e = hallSlotKey (bookingDateKey rt b) (slot b) (hallCode a)"
proof -
  from assms have "fst e \<in> fst ` set (aggregate usageOf [] (allocEvents rt bs))"
    by (simp add: indexBookings_fields)
  then show ?thesis by (simp add: keys_aggregate keys_allocEvents)
qed

lemma usage_distinct: "distinct (map fst (hallSlotUsage (indexBookings rt bs)))"
  by (simp add: indexBookings_fields distinct_aggregate)

lemma lists_keys:
  assumes "e \<in> set (slotHallBookings (indexBookings rt bs))"
  shows "\<exists>b \<in> set bs. \<exists>a \<in> set (halls b).
           fst e = hallSlotKey (bookingDateKey rt b) (slot b) (hallCode a)"
proof -
  from assms have "fst e \<in> fst ` set (aggregate listOf [] (allocEvents rt bs))"
    by (simp add: indexBookings_fields)
  then show ?thesis by (simp add: keys_aggregate keys_allocEvents)
qed

lemma lists_distinct: "distinct (map fst (slotHallBookings (indexBookings rt bs)))"
  by (simp add: indexBookings_fields distinct_aggregate)

lemma days_keys:
  assumes "e \<in> set (daySlotBookings (indexBookings rt bs))"
  shows "\<exists>b \<in> set bs. fst e = daySlotKey (bookingDateKey rt b) (slot b)"
proof -
  from assms have "fst e \<in> fst ` set (aggregate pushBooking [] (dayEvents rt bs))"
    by (simp add: indexBookings_fields)
  then show ?thesis by (auto simp: keys_aggregate dayEvents_def)
qed

lemma days_distinct: "distinct (map fst (daySlotBookings (indexBookings rt bs)))"
  by (simp add: indexBookings_fields distinct_aggregate)


lemma filter_allocEvents_bookings:
  "map (\<lambda>e. fst (snd e)) (filter (\<lambda>e. fst e = hallSlotKey dk s h) (allocEvents rt bs)) =
     groupEntries rt bs dk s h"
proof (induction bs)
  case Nil
  then show ?case by (simp add: allocEvents_def groupEntries_def)
next
  case (Cons b bs)
  have one: "map (\<lambda>e. fst (snd e)) (filter (\<lambda>e. fst e = hallSlotKey dk s h)
        (hallEvents (bookingDateKey rt b) b hs)) =
      (if bookingDateKey rt b = dk \<and> slot b = s
       then map (\<lambda>a. b) (filter (\<lambda>a. hallCode a = h) hs) else [])" for hs
    by (induction hs) (auto simp: hallEvents_def hallSlotKey_inj)
  have unfold: "groupEntries rt (b # bs) dk s h =
      (if bookingDateKey rt b = dk \<and> slot b = s
       then map (\<lambda>a. b) (filter (\<lambda>a. hallCode a = h) (halls b)) else [])
      @ groupEntries rt bs dk s h"
    by (simp add: groupEntries_def)
  show ?case
    unfolding allocEvents_Cons unfold using Cons one [of "halls b"] by simp
qed

lemma usage_lookup:
  "mapGet (hallSlotUsage (indexBookings rt bs)) (hallSlotKey dk s h) =
     accumulate usageOf None
       (map snd (filter (\<lambda>e. fst e = hallSlotKey dk s h) (allocEvents rt bs)))"
  unfolding indexBookings_fields mapGet_aggregate by (simp add: mapGet_def)

lemma accumulate_listOf: "accumulate listOf v evs = accumulate pushBooking v (map fst evs)"
  by (induction evs arbitrary: v) (simp_all add: accumulate_Nil accumulate_Cons listOf_def)

lemma lists_lookup:
  "mapGet (slotHallBookings (indexBookings rt bs)) k =
     (let l = map (\<lambda>e. fst (snd e)) (filter (\<lambda>e. fst e = k) (allocEvents rt bs))
      in if l = [] then None else Some l)"
  unfolding indexBookings_fields mapGet_aggregate accumulate_listOf accumulate_pushBooking
  by (simp add: mapGet_def Let_def comp_def)

lemma lists_subset:
  assumes "e \<in> set (slotHallBookings (indexBookings rt bs))"
  shows "set (snd e) \<subseteq> set bs"
proof -
  from assms have "mapGet (slotHallBookings (indexBookings rt bs)) (fst e) = Some (snd e)"
    using mapGet_member [OF lists_distinct, of "fst e" "snd e" rt bs] by simp
  then have "snd e = map (\<lambda>e. fst (snd e)) (filter (\<lambda>x. fst x = fst e) (allocEvents rt bs))"
    by (simp add: lists_lookup Let_def split: if_splits)
  then have "set (snd e) \<subseteq> (\<lambda>e. fst (snd e)) ` set (allocEvents rt bs)"
    by (metis (no_types, lifting) filter_is_subset image_mono set_map)
  with allocEvents_mem show ?thesis by fastforce
qed

section \<open>The alerts of each rule\<close>

lemma concat_map_if:
  "concat (map (\<lambda>x. if c x then [g x] else []) xs) = map g (filter c xs)"
  by (induction xs) auto

lemma filter_concat_map:
  "filter P (concat (map f xs)) = concat (map (\<lambda>x. filter P (f x)) xs)"
  by (induction xs) auto

lemma mem_if_single: "a \<in> set (if c then [x] else []) \<longleftrightarrow> c \<and> a = x"
  by (cases c) auto

lemma set_if_single: "set (if c then [x] else []) = (if c then {x} else {})"
  by (cases c) simp_all

lemma distinct_if_single: "distinct (if c then [x] else [])"
  by (cases c) simp_all

lemmas bookingAlert_defs =
  softFollowAlert_def pastOpenAlert_def missingContactAlert_def splitMismatchAlert_def
  highGuestsAlert_def highAdvanceAlert_def

lemma type_capacityAlerts: "a \<in> set (capacityAlerts es) \<Longrightarrow> type_a a = CAPACITY_OVERRIDE"
  by (auto simp: capacityAlerts_def capacityAlert_def Let_def split: if_splits)

lemma type_perfAlerts: "a \<in> set (perfAlerts es) \<Longrightarrow> type_a a = PERFORMANCE_HALL_CONFLICT"
  by (auto simp: perfAlerts_def perfAlert_def Let_def split: if_splits)

lemma type_complexAlerts: "a \<in> set (complexAlerts es) \<Longrightarrow> type_a a = COMPLEX_MULTI_HALL_DAY"
  by (auto simp: complexAlerts_def complexAlert_def Let_def split: if_splits)

lemma type_bookingAlerts:
  assumes "a \<in> set (bookingAlerts rt ts te b)"
  shows "type_a a \<noteq> CAPACITY_OVERRIDE \<and> type_a a \<noteq> PERFORMANCE_HALL_CONFLICT
     \<and> type_a a \<noteq> COMPLEX_MULTI_HALL_DAY"
proof -
  let ?dk = "bookingDateKey rt b"
  from assms have "a = softFollowAlert ?dk b \<or> a = pastOpenAlert ?dk b
      \<or> a = missingContactAlert ?dk b \<or> a = splitMismatchAlert ?dk b
      \<or> a = highGuestsAlert ?dk b \<or> (\<exists>adv. a = highAdvanceAlert rt ?dk b adv)"
    unfolding bookingAlerts_def Let_def bookingDateKey_def set_append Un_iff mem_if_single
    by (cases "advance b") auto
  then show ?thesis
    by (auto simp: bookingAlert_defs Let_def)
qed

lemma filter_empty_type:
  "(\<And>a. a \<in> set xs \<Longrightarrow> type_a a = T') \<Longrightarrow> T \<noteq> T' \<Longrightarrow> filter (\<lambda>a. type_a a = T) xs = []"
  by (induction xs) auto

text \<open>The alerts of a per-booking type come from the second loop alone, in booking order.\<close>

lemma filter_type_buildAlerts:
  assumes "T \<noteq> CAPACITY_OVERRIDE" "T \<noteq> PERFORMANCE_HALL_CONFLICT" "T \<noteq> COMPLEX_MULTI_HALL_DAY"
  shows "filter (\<lambda>a. type_a a = T) (buildAlerts rt bookings today) =
     concat (map (\<lambda>b. filter (\<lambda>a. type_a a = T)
        (bookingAlerts rt (startOfDay rt today) (addDays (startOfDay rt today) 15) b)) bookings)"
  using assms
  by (simp add: buildAlerts_def Let_def filter_concat_map
      filter_empty_type[OF type_capacityAlerts] filter_empty_type[OF type_perfAlerts]
      filter_empty_type[OF type_complexAlerts])


lemma filter_perf_buildAlerts:
  "filter (\<lambda>a. type_a a = PERFORMANCE_HALL_CONFLICT) (buildAlerts rt bs today) =
     perfAlerts (slotHallBookings (indexBookings rt bs))"
proof -
  have 1: "filter (\<lambda>a. type_a a = PERFORMANCE_HALL_CONFLICT) (capacityAlerts es) = []" for es
    using type_capacityAlerts by (fastforce simp: filter_empty_conv)
  have 2: "filter (\<lambda>a. type_a a = PERFORMANCE_HALL_CONFLICT) (perfAlerts es) = perfAlerts es" for es
    using type_perfAlerts by (simp add: filter_id_conv)
  have 3: "filter (\<lambda>a. type_a a = PERFORMANCE_HALL_CONFLICT) (complexAlerts es) = []" for es
    using type_complexAlerts by (fastforce simp: filter_empty_conv)
  have 4: "filter (\<lambda>a. type_a a = PERFORMANCE_HALL_CONFLICT)
      (concat (map (bookingAlerts rt ts te) bs)) = []" for ts te
    using type_bookingAlerts by (fastforce simp: filter_empty_conv)
  show ?thesis by (simp add: buildAlerts_def Let_def 1 2 3 4)
qed

lemma buildAlerts_mem:
  "a \<in> set (buildAlerts rt bs today) \<longleftrightarrow>
     a \<in> set (capacityAlerts (hallSlotUsage (indexBookings rt bs)))
   \<or> a \<in> set (perfAlerts (slotHallBookings (indexBookings rt bs)))
   \<or> (\<exists>b \<in> set bs. a \<in> set (bookingAlerts rt (startOfDay rt today)
         (addDays (startOfDay rt today) 15) b))
   \<or> a \<in> set (complexAlerts (daySlotBookings (indexBookings rt bs)))"
  by (auto simp: buildAlerts_def Let_def)

lemma capacityAlerts_filter:
  "capacityAlerts es =
     map (\<lambda>e. capacityAlert (fst e) (snd e))
       (filter (\<lambda>e. \<not> used (snd e) \<le> capacity_u (snd e)) es)"
  by (induction es) (auto simp: capacityAlerts_def)

lemma perfAlerts_filter:
  "perfAlerts es =
     map (\<lambda>e. perfAlert (fst e) (snd e))
       (filter (\<lambda>e. 1 < length (snd e) \<and> list_ex hasPerformance (snd e)) es)"
  by (induction es) (auto simp: perfAlerts_def)

lemma complexAlerts_filter:
  "complexAlerts es =
     map (\<lambda>e. complexAlert (fst e) (snd e) (filter (\<lambda>b. length (halls b) > 1) (snd e)))
       (filter (\<lambda>e. 1 < length (snd e)
          \<and> (2 \<le> length (filter (\<lambda>b. length (halls b) > 1) (snd e)) \<or> 3 \<le> length (snd e))) es)"
  by (induction es) (auto simp: complexAlerts_def Let_def)

lemma perfAlerts_mem:
  assumes "a \<in> set (perfAlerts es)"
  shows "\<exists>e \<in> set es. list_ex hasPerformance (snd e) \<and> 1 < length (snd e)
           \<and> a = perfAlert (fst e) (snd e)"
  using assms by (induction es) (auto simp: perfAlerts_def split: if_splits)

lemma capacityAlert_fields:
  assumes "CHR ''|'' \<notin> set dk"
  shows "id_a (capacityAlert (hallSlotKey dk s h) u) = capacityAlertId dk s h"
    and "severity (capacityAlert (hallSlotKey dk s h) u) = critical"
    and "bookingId (capacityAlert (hallSlotKey dk s h) u) = sampleBookingId u"
    and "dateKey_a (capacityAlert (hallSlotKey dk s h) u) = Some dk"
    and "slot_a (capacityAlert (hallSlotKey dk s h) u) = Some (slotStr s)"
  by (simp_all add: capacityAlert_def Let_def split_hallSlotKey [OF assms] part_def tmpl_def
      capacityAlertId_def)

lemma perfAlert_fields:
  assumes "CHR ''|'' \<notin> set dk"
  shows "id_a (perfAlert (hallSlotKey dk s h) l) = perfAlertId dk s h"
    and "severity (perfAlert (hallSlotKey dk s h) l) = warning"
    and "bookingId (perfAlert (hallSlotKey dk s h) l) = map_option id_b (find hasPerformance l)"
    and "dateKey_a (perfAlert (hallSlotKey dk s h) l) = Some dk"
    and "slot_a (perfAlert (hallSlotKey dk s h) l) = Some (slotStr s)"
  by (simp_all add: perfAlert_def Let_def split_hallSlotKey [OF assms] part_def tmpl_def
      perfAlertId_def)

lemma complexAlert_fields:
  assumes "CHR ''|'' \<notin> set dk"
  shows "id_a (complexAlert (daySlotKey dk s) l m) = complexAlertId dk s"
    and "bookingId (complexAlert (daySlotKey dk s) l m) = None"
    and "dateKey_a (complexAlert (daySlotKey dk s) l m) = Some dk"
    and "slot_a (complexAlert (daySlotKey dk s) l m) = Some (slotStr s)"
  by (simp_all add: complexAlert_def Let_def split_daySlotKey [OF assms] part_def tmpl_def
      complexAlertId_def)




lemma filter_split_bookingAlerts:
  "filter (\<lambda>a. type_a a = GUEST_SPLIT_MISMATCH) (bookingAlerts rt ts te b) =
     (if (hallAGuests b \<noteq> None \<or> hallBGuests b \<noteq> None) \<and> totalGuests b \<noteq> 0
         \<and> orZero (hallAGuests b) + orZero (hallBGuests b) \<noteq> totalGuests b
      then [splitMismatchAlert (bookingDateKey rt b) b] else [])"
  by (simp add: bookingAlerts_def bookingDateKey_def Let_def bookingAlert_defs
      split: option.splits)

lemma bookingAlerts_bookingId:
  assumes "a \<in> set (bookingAlerts rt ts te b)"
  shows "bookingId a = Some (id_b b)"
proof -
  let ?dk = "bookingDateKey rt b"
  from assms have "a = softFollowAlert ?dk b \<or> a = pastOpenAlert ?dk b
      \<or> a = missingContactAlert ?dk b \<or> a = splitMismatchAlert ?dk b
      \<or> a = highGuestsAlert ?dk b \<or> (\<exists>adv. a = highAdvanceAlert rt ?dk b adv)"
    unfolding bookingAlerts_def Let_def bookingDateKey_def set_append Un_iff mem_if_single
    by (cases "advance b") auto
  then show ?thesis
    by (auto simp: bookingAlert_defs Let_def)
qed

lemma bookingAlerts_ids:
  "map id_a (bookingAlerts rt ts te b) =
     (if (status b = INQUIRY \<or> status b = TENTATIVE)
          \<and> dateGe (parseEventDateLabel rt (eventDateLabel b)) ts
          \<and> dateLe (parseEventDateLabel rt (eventDateLabel b)) te
      then [''soft-follow-'' @ showInt (id_b b)] else [])
   @ (if dateLt (parseEventDateLabel rt (eventDateLabel b)) ts
          \<and> (status b = INQUIRY \<or> status b = TENTATIVE \<or> status b = CONFIRMED)
      then [''past-open-'' @ showInt (id_b b)] else [])
   @ (if missingPhone b \<or> missingAddress b
      then [''missing-contact-'' @ showInt (id_b b)] else [])
   @ (if (hallAGuests b \<noteq> None \<or> hallBGuests b \<noteq> None) \<and> totalGuests b \<noteq> 0
          \<and> orZero (hallAGuests b) + orZero (hallBGuests b) \<noteq> totalGuests b
      then [''split-mismatch-'' @ showInt (id_b b)] else [])
   @ (if totalGuests b \<ge> 1500 then [''high-guests-'' @ showInt (id_b b)] else [])
   @ (if (case advance b of None \<Rightarrow> False | Some adv \<Rightarrow> amount adv \<ge> 200000)
      then [''high-advance-'' @ showInt (id_b b)] else [])"
  by (cases "advance b") (simp_all add: bookingAlerts_def Let_def bookingAlert_defs)

lemma bookingAlerts_ids_subset:
  "set (map id_a (bookingAlerts rt ts te b)) \<subseteq> set (bookingIds b)"
  unfolding bookingAlerts_ids bookingIds_def set_append set_if_single
  by (auto split: if_splits)

lemma complexAlerts_bookingId: "a \<in> set (complexAlerts es) \<Longrightarrow> bookingId a = None"
  by (auto simp: complexAlerts_def complexAlert_def Let_def split: if_splits)

section \<open>Concrete runs\<close>

lemma key_15_Nov: "dateKey utcRuntime (parseLabel ''15 Nov 2025'') = ''2025-11-15''"
  by code_simp

lemma utcRuntime_parse: "dateParse utcRuntime = parseLabel"
  by (simp add: utcRuntime_def)

lemma trim_runs:
  "trim ''note A'' = ''note A''"
  "trim ''approved'' = ''approved''"
  "trim '' approved'' = ''approved''"
  "trim ''owner approved'' = ''owner approved''"
  "trim '' call back '' = ''call back''"
  "trim paddedNote = ''approved''"
  "trim ''  '' = []"
  by code_simp+

lemma dinnerA_fields:
  "bookingDateKey utcRuntime (dinnerA i g) = ''2025-11-15''"
  "slot (dinnerA i g) = DINNER"
  "halls (dinnerA i g) = [hallAlloc HallA 1000 g]"
  "id_b (dinnerA i g) = i"
  "hasPerformance (dinnerA i g) = False"
  by (simp_all add: dinnerA_def blankBooking_def bookingDateKey_def dateKeyFromDate_def
      parseEventDateLabel_def utcRuntime_parse key_15_Nov)

lemma hallAlloc_fields:
  "hallCode (hallAlloc h c g) = h" "capacity (hallAlloc h c g) = c"
  "guestsHere (hallAlloc h c g) = g"
  by (simp_all add: hallAlloc_def)


lemma windowBookings_keys:
  "bookingDateKey utcRuntime (tentativeOn 1 ''30 Nov 2025'') = ''2025-11-30''"
  "bookingDateKey utcRuntime (tentativeOn 2 ''01 Dec 2025'') = ''2025-12-01''"
  "bookingDateKey utcRuntime (tentativeOn 3 ''14 Nov 2025'') = ''2025-11-14''"
  by code_simp+


lemma threeDinners_alerts:
  "map (\<lambda>a. (id_a a, type_a a, bookingId a)) (buildAlerts utcRuntime threeDinners refTime) =
     [(''cap-2025-11-15-DINNER-A'', CAPACITY_OVERRIDE, Some 1),
      (''complex-multihall-2025-11-15-DINNER'', COMPLEX_MULTI_HALL_DAY, None)]"
  by code_simp

lemma threeDinners_ids:
  "map id_a (buildAlerts utcRuntime threeDinners refTime) =
     [''cap-2025-11-15-DINNER-A'', ''complex-multihall-2025-11-15-DINNER'']"
  using arg_cong [OF threeDinners_alerts, of "map fst"] by (simp add: comp_def)

lemma threeDinners_first:
  "0 < length (buildAlerts utcRuntime threeDinners refTime)"
  "id_a (buildAlerts utcRuntime threeDinners refTime ! 0) = capIdA"
  using arg_cong [OF threeDinners_ids, of length]
    arg_cong [OF threeDinners_ids, of "\<lambda>xs. xs ! 0"]
  by (simp_all add: capIdA_def nth_map)

lemma threeDinners_nth:
  "length (buildAlerts utcRuntime threeDinners refTime) = 2"
  "type_a (buildAlerts utcRuntime threeDinners refTime ! 0) = CAPACITY_OVERRIDE"
  "bookingId (buildAlerts utcRuntime threeDinners refTime ! 0) = Some 1"
  "type_a (buildAlerts utcRuntime threeDinners refTime ! 1) = COMPLEX_MULTI_HALL_DAY"
proof -
  have len: "length (buildAlerts utcRuntime threeDinners refTime) = 2"
    using arg_cong [OF threeDinners_alerts, of length] by simp
  then show "length (buildAlerts utcRuntime threeDinners refTime) = 2" .
  have n0: "(\<lambda>a. (id_a a, type_a a, bookingId a)) (buildAlerts utcRuntime threeDinners refTime ! 0)
      = (''cap-2025-11-15-DINNER-A'', CAPACITY_OVERRIDE, Some 1)"
    using arg_cong [OF threeDinners_alerts, of "\<lambda>xs. xs ! 0"] len by (simp add: nth_map)
  have n1: "(\<lambda>a. (id_a a, type_a a, bookingId a)) (buildAlerts utcRuntime threeDinners refTime ! 1)
      = (''complex-multihall-2025-11-15-DINNER'', COMPLEX_MULTI_HALL_DAY, None)"
    using arg_cong [OF threeDinners_alerts, of "\<lambda>xs. xs ! 1"] len by (simp add: nth_map)
  from n0 show "type_a (buildAlerts utcRuntime threeDinners refTime ! 0) = CAPACITY_OVERRIDE"
    "bookingId (buildAlerts utcRuntime threeDinners refTime ! 0) = Some 1" by simp_all
  from n1 show "type_a (buildAlerts utcRuntime threeDinners refTime ! 1) = COMPLEX_MULTI_HALL_DAY"
    by simp
qed

lemma galaDinners_alerts:
  "map (\<lambda>a. (id_a a, type_a a, bookingId a)) (buildAlerts utcRuntime galaDinners refTime) =
     [(''cap-2025-11-15-DINNER-A'', CAPACITY_OVERRIDE, Some 3),
      (''perf-conflict-2025-11-15-DINNER-A'', PERFORMANCE_HALL_CONFLICT, Some 2),
      (''complex-multihall-2025-11-15-DINNER'', COMPLEX_MULTI_HALL_DAY, None)]"
  by code_simp

lemma perfSolo_alerts:
  "map (\<lambda>a. (id_a a, type_a a, message a)) (buildAlerts utcRuntime [perfSolo] refTime) =
     [(''perf-conflict-2025-11-15-DINNER-A'', PERFORMANCE_HALL_CONFLICT,
       ''There are 2 event(s) in Hall A during Dinner on 15 Nov 2025, and at least one has a performance.'')]"
  by code_simp

section \<open>Capacity override\<close>









section \<open>Performance conflict\<close>

lemma filter_distinct_key:
  "distinct (map f xs) \<Longrightarrow>
     map (\<lambda>a. b) (filter (\<lambda>x. f x = v) xs) = (if list_ex (\<lambda>x. f x = v) xs then [b] else [])"
proof (induction xs)
  case Nil
  then show ?case by simp
next
  case (Cons x xs)
  show ?case
  proof (cases "f x = v")
    case True
    with Cons.prems have "\<forall>y \<in> set xs. f y \<noteq> v" by (auto simp: image_iff)
    then have "filter (\<lambda>x. f x = v) xs = []" by (simp add: filter_empty_conv)
    with True show ?thesis by simp
  next
    case False
    with Cons show ?thesis by simp
  qed
qed

lemma groupEntries_distinct_halls:
  assumes "\<forall>b \<in> set bs. distinct (map hallCode (halls b))"
  shows "groupEntries rt bs dk s h = bookingsAt rt bs dk s h"
  using assms
proof (induction bs)
  case Nil
  then show ?case by (simp add: groupEntries_def bookingsAt_def)
next
  case (Cons b bs)
  then have d: "distinct (map hallCode (halls b))" by simp
  have "groupEntries rt (b # bs) dk s h =
      (if bookingDateKey rt b = dk \<and> slot b = s
       then map (\<lambda>a. b) (filter (\<lambda>a. hallCode a = h) (halls b)) else [])
      @ groupEntries rt bs dk s h"
    by (simp add: groupEntries_def)
  also have "\<dots> = (if bookingDateKey rt b = dk \<and> slot b = s \<and> list_ex (\<lambda>a. hallCode a = h) (halls b)
       then [b] else []) @ bookingsAt rt bs dk s h"
    using Cons filter_distinct_key [OF d, of b h] by simp
  also have "\<dots> = bookingsAt rt (b # bs) dk s h"
    by (simp add: bookingsAt_def)
  finally show ?case .
qed

text \<open>
  What the engine does: one PERFORMANCE_HALL_CONFLICT alert for a key when its list has at
  least two entries, one of them with a performance; an entry is a hall allocation.
\<close>

lemma perf_conflict_count:
  "length (filter (\<lambda>a. type_a a = PERFORMANCE_HALL_CONFLICT \<and> id_a a = perfAlertId dk s h)
        (buildAlerts rt bookings today)) =
     (if 2 \<le> length (groupEntries rt bookings dk s h)
         \<and> list_ex hasPerformance (groupEntries rt bookings dk s h) then 1 else 0)"
proof -
  let ?U = "slotHallBookings (indexBookings rt bookings)"
  let ?K = "hallSlotKey dk s h"
  let ?P = "\<lambda>l. 1 < length l \<and> list_ex hasPerformance l"
  have ids: "id_a (perfAlert (fst e) (snd e)) = perfAlertId dk s h \<longleftrightarrow> fst e = ?K"
    if "e \<in> set ?U" for e
  proof -
    from lists_keys [OF that] obtain b :: MockBooking and a :: HallAllocation where
      k: "fst e = hallSlotKey (bookingDateKey rt b) (slot b) (hallCode a)" by auto
    show ?thesis
      by (simp add: k perfAlert_fields [OF bookingDateKey_nobar] perfAlertId_inj hallSlotKey_inj)
  qed
  have "filter (\<lambda>a. type_a a = PERFORMANCE_HALL_CONFLICT \<and> id_a a = perfAlertId dk s h)
        (buildAlerts rt bookings today) =
      filter (\<lambda>a. id_a a = perfAlertId dk s h) (perfAlerts ?U)"
    using filter_perf_buildAlerts [of rt bookings today, symmetric] by simp
  also have "length \<dots> = length (filter (\<lambda>e. id_a (perfAlert (fst e) (snd e)) = perfAlertId dk s h
        \<and> ?P (snd e)) ?U)"
    by (simp add: perfAlerts_filter filter_map comp_def conj_commute)
  also have "\<dots> = length (filter (\<lambda>e. fst e = ?K \<and> ?P (snd e)) ?U)"
    by (rule arg_cong [where f = length], rule filter_cong) (auto simp: ids)
  also have "\<dots> = (case mapGet ?U ?K of None \<Rightarrow> 0 | Some l \<Rightarrow> if ?P l then 1 else 0)"
    by (rule count_key [OF lists_distinct])
  also have "\<dots> = (if 2 \<le> length (groupEntries rt bookings dk s h)
         \<and> list_ex hasPerformance (groupEntries rt bookings dk s h) then 1 else 0)"
    by (auto simp: lists_lookup filter_allocEvents_bookings Let_def)
  finally show ?thesis .
qed

text \<open>
  When no booking lists the same hall twice, the entries of a key are its bookings, and
  the rule is the one of claim C2.
\<close>

lemma perf_conflict_distinct_halls:
  assumes "\<forall>b \<in> set bookings. distinct (map hallCode (halls b))"
  shows "length (filter (\<lambda>a. type_a a = PERFORMANCE_HALL_CONFLICT \<and> id_a a = perfAlertId dk s h)
        (buildAlerts rt bookings today)) =
     (if 2 \<le> length (bookingsAt rt bookings dk s h)
         \<and> list_ex hasPerformance (bookingsAt rt bookings dk s h) then 1 else 0)"
  by (simp only: perf_conflict_count groupEntries_distinct_halls [OF assms])

text \<open>
  C2 on a booking that lists hall A twice. The group of hall A at dinner on 15 Nov 2025
  holds this one booking, which has a performance; claim C2 gives it no
  PERFORMANCE_HALL_CONFLICT alert. The engine files the booking twice under the key and
  emits the alert, reporting two events in the hall.
\<close>

theorem C2_single_booking_conflict:
  "bookingsAt utcRuntime [perfSolo] ''2025-11-15'' DINNER HallA = [perfSolo]
   \<and> hasPerformance perfSolo
   \<and> map (\<lambda>a. (id_a a, type_a a, message a)) (buildAlerts utcRuntime [perfSolo] refTime) =
     [(''perf-conflict-2025-11-15-DINNER-A'', PERFORMANCE_HALL_CONFLICT,
       ''There are 2 event(s) in Hall A during Dinner on 15 Nov 2025, and at least one has a performance.'')]"
proof -
  have k: "bookingDateKey utcRuntime perfSolo = ''2025-11-15''"
    by (simp add: perfSolo_def blankBooking_def bookingDateKey_def dateKeyFromDate_def
        parseEventDateLabel_def utcRuntime_parse key_15_Nov)
  have f: "slot perfSolo = DINNER" "hasPerformance perfSolo"
    "halls perfSolo = [hallAlloc HallA 1000 300, hallAlloc HallA 1000 200]"
    by (simp_all add: perfSolo_def blankBooking_def)
  show ?thesis
    by (simp add: bookingsAt_def k f hallAlloc_fields perfSolo_alerts)
qed

section \<open>Follow-up window and past bookings\<close>

lemma startOfDay_calendarDay: "startOfDay rt today = calendarDay rt today 0"
  by (simp add: startOfDay_def calendarDay_def split: option.splits)








section \<open>Guest split mismatch\<close>

text \<open>
  C4. The GUEST_SPLIT_MISMATCH alerts of the output are, in booking order, one alert for
  each booking with a hall guest count entered (hall A or hall B not null), a nonzero
  total, and a total different from hall A plus hall B (null counted as 0), and none for
  any other booking; so a booking with both counts null has none, whatever its total.
\<close>

theorem C4_guest_split_mismatch:
  "filter (\<lambda>a. type_a a = GUEST_SPLIT_MISMATCH) (buildAlerts rt bookings today) =
     map (\<lambda>b. splitMismatchAlert (bookingDateKey rt b) b)
       (filter (\<lambda>b. (hallAGuests b \<noteq> None \<or> hallBGuests b \<noteq> None)
                   \<and> totalGuests b \<noteq> 0
                   \<and> (case hallAGuests b of None \<Rightarrow> 0 | Some n \<Rightarrow> n)
                     + (case hallBGuests b of None \<Rightarrow> 0 | Some n \<Rightarrow> n) \<noteq> totalGuests b)
          bookings)"
proof -
  have eq: "\<And>x. orZero x = (case x of None \<Rightarrow> 0 | Some n \<Rightarrow> n)"
    by (simp add: orZero_def split: option.splits)
  show ?thesis
    by (simp add: filter_type_buildAlerts filter_split_bookingAlerts concat_map_if eq)
qed

theorem C4_witness:
  "filter (\<lambda>a. type_a a = GUEST_SPLIT_MISMATCH)
       (buildAlerts utcRuntime [tentativeOn 1 ''30 Nov 2025'', dinnerA 2 500] refTime) =
     [splitMismatchAlert ''2025-11-30'' (tentativeOn 1 ''30 Nov 2025'')]"
proof -
  have t: "hallAGuests (tentativeOn i l) = Some 200" "hallBGuests (tentativeOn i l) = None"
    "totalGuests (tentativeOn i l) = 500" for i l
    by (simp_all add: tentativeOn_def blankBooking_def)
  have d: "hallAGuests (dinnerA i g) = None" "hallBGuests (dinnerA i g) = None" for i g
    by (simp_all add: dinnerA_def blankBooking_def)
  show ?thesis
    using C4_guest_split_mismatch
      [of utcRuntime "[tentativeOn 1 ''30 Nov 2025'', dinnerA 2 500]" refTime]
    by (simp add: windowBookings_keys t d)
qed

section \<open>Resolving and dismissing\<close>

text \<open>
  C5. Resolving without a note upserts status RESOLVED with the fresh timestamp and keeps
  the note stored before (none if there was no record); dismissing without a note upserts
  status DISMISSED with the fresh timestamp and no note. So a note given at a dismissal
  survives a later resolve without a note, and is cleared by a later dismiss without one.
\<close>

theorem C5_resolve_keeps_note_dismiss_clears:
  "resolveAlert now aid None st =
     st(aid \<mapsto> \<lparr>alertId = aid, status_r = RESOLVED,
                  note_r = (case st aid of None \<Rightarrow> None | Some r \<Rightarrow> note_r r),
                  updatedAt = now\<rparr>)
   \<and> dismissAlert now aid None st =
     st(aid \<mapsto> \<lparr>alertId = aid, status_r = DISMISSED, note_r = None, updatedAt = now\<rparr>)
   \<and> resolveAlert now aid None (dismissAlert before aid nt st) aid =
     Some \<lparr>alertId = aid, status_r = RESOLVED, note_r = trimNote nt, updatedAt = now\<rparr>
   \<and> dismissAlert now aid None (dismissAlert before aid nt st) aid =
     Some \<lparr>alertId = aid, status_r = DISMISSED, note_r = None, updatedAt = now\<rparr>"
  by (simp add: resolveAlert_def dismissAlert_def trimNote_def split: option.splits)

theorem C5_witness:
  "resolveAlert stamp2 capIdA None (dismissAlert stamp1 capIdA (Some ''note A'') Map.empty) capIdA =
     Some \<lparr>alertId = capIdA, status_r = RESOLVED, note_r = Some ''note A'', updatedAt = stamp2\<rparr>
   \<and> dismissAlert stamp2 capIdA None (dismissAlert stamp1 capIdA (Some ''note A'') Map.empty) capIdA =
     Some \<lparr>alertId = capIdA, status_r = DISMISSED, note_r = None, updatedAt = stamp2\<rparr>"
  using C5_resolve_keeps_note_dismiss_clears
    [of stamp2 capIdA Map.empty stamp1 "Some ''note A''"]
  by (simp add: trimNote_def trim_runs)

section \<open>The round trip through the store\<close>

lemma alerts_nth:
  "i < length defs \<Longrightarrow>
     effectiveStatus (alerts defs res ! i)
       = (case res (id_a (defs ! i)) of None \<Rightarrow> ACTIVE | Some r \<Rightarrow> status_r r)
   \<and> resolution (alerts defs res ! i) = res (id_a (defs ! i))
   \<and> id_a (alerts defs res ! i) = id_a (defs ! i)"
  by (simp add: alerts_def Let_def AlertDefinition.defs AlertWithResolution.defs)

lemma length_alerts: "length (alerts defs res) = length defs"
  by (simp add: alerts_def)

text \<open>
  C6, as the code has it. For the alert at any position of the engine's output:
  after \<open>dismissAlert\<close> with a note the merged alert has effective status DISMISSED and
  carries the record with the note trimmed of surrounding white space, as \<open>trim\<close>
  strips it (no note when the trimmed note is empty); after a following \<open>reopenAlert\<close>
  it has effective status ACTIVE and no record. The effective status is always the
  stored record's status, ACTIVE without a record.
\<close>

theorem C6_dismiss_reopen_round_trip:
  assumes "i < length (buildAlerts rt bookings today)"
  shows "let defs = buildAlerts rt bookings today;
             aid = id_a (defs ! i);
             dismissed = dismissAlert now aid (Some nt) st;
             reopened = reopenAlert aid dismissed
         in effectiveStatus (alerts defs dismissed ! i) = DISMISSED
          \<and> resolution (alerts defs dismissed ! i) =
              Some \<lparr>alertId = aid, status_r = DISMISSED,
                     note_r = (if trim nt = [] then None else Some (trim nt)),
                     updatedAt = now\<rparr>
          \<and> effectiveStatus (alerts defs reopened ! i) = ACTIVE
          \<and> resolution (alerts defs reopened ! i) = None
          \<and> effectiveStatus (alerts defs st ! i) =
              (case st aid of None \<Rightarrow> ACTIVE | Some r \<Rightarrow> status_r r)"
  using assms
  by (simp add: Let_def alerts_nth dismissAlert_def reopenAlert_def trimNote_def)

theorem C6_witness:
  "0 < length (buildAlerts utcRuntime threeDinners refTime)
   \<and> effectiveStatus (alerts (buildAlerts utcRuntime threeDinners refTime)
        (dismissAlert stamp1 capIdA (Some ''approved'') Map.empty) ! 0) = DISMISSED
   \<and> resolution (alerts (buildAlerts utcRuntime threeDinners refTime)
        (dismissAlert stamp1 capIdA (Some ''approved'') Map.empty) ! 0) =
       Some \<lparr>alertId = capIdA, status_r = DISMISSED, note_r = Some ''approved'',
              updatedAt = stamp1\<rparr>
   \<and> effectiveStatus (alerts (buildAlerts utcRuntime threeDinners refTime)
        (reopenAlert capIdA (dismissAlert stamp1 capIdA (Some ''approved'') Map.empty)) ! 0)
       = ACTIVE
   \<and> resolution (alerts (buildAlerts utcRuntime threeDinners refTime)
        (reopenAlert capIdA (dismissAlert stamp1 capIdA (Some ''approved'') Map.empty)) ! 0)
       = None
   \<and> resolution (alerts (buildAlerts utcRuntime threeDinners refTime)
        (dismissAlert stamp1 capIdA (Some paddedNote) Map.empty) ! 0) =
       Some \<lparr>alertId = capIdA, status_r = DISMISSED, note_r = Some ''approved'',
              updatedAt = stamp1\<rparr>
   \<and> resolution (alerts (buildAlerts utcRuntime threeDinners refTime)
        (dismissAlert stamp1 capIdA (Some ''  '') Map.empty) ! 0) =
       Some \<lparr>alertId = capIdA, status_r = DISMISSED, note_r = None, updatedAt = stamp1\<rparr>"
proof -
  have tr: "trim ''approved'' = ''approved''" "trim paddedNote = ''approved''"
    "trim ''  '' = []"
    by (rule trim_runs)+
  show ?thesis
    using C6_dismiss_reopen_round_trip
      [OF threeDinners_first(1), of stamp1 "''approved''" Map.empty]
      C6_dismiss_reopen_round_trip
      [OF threeDinners_first(1), of stamp1 paddedNote Map.empty]
      C6_dismiss_reopen_round_trip
      [OF threeDinners_first(1), of stamp1 "''  ''" Map.empty]
      threeDinners_first(1)
    by (simp add: Let_def threeDinners_first(2) tr)
qed

text \<open>
  C6 as worded fails on a note with surrounding white space: the note stored and shown
  is the trimmed one.
\<close>

theorem C6_counterexample:
  "id_a (buildAlerts utcRuntime threeDinners refTime ! 0) = capIdA
   \<and> resolution (alerts (buildAlerts utcRuntime threeDinners refTime)
        (dismissAlert stamp1 capIdA (Some '' approved'') Map.empty) ! 0) =
       Some \<lparr>alertId = capIdA, status_r = DISMISSED, note_r = Some ''approved'',
              updatedAt = stamp1\<rparr>
   \<and> Some ''approved'' \<noteq> Some '' approved''"
proof -
  have tr: "trim '' approved'' = ''approved''"
    by (rule trim_runs)
  show ?thesis
    using threeDinners_first
    by (simp add: alerts_nth dismissAlert_def trimNote_def tr)
qed

section \<open>Determinism\<close>































text \<open>
  What is read matters: in another zone the same booking list and reference time give
  other alerts.
\<close>

lemma zone_is_read:
  "map id_a (buildAlerts utcRuntime [tentativeOn 3 ''14 Nov 2025''] nightRef) =
     [''past-open-3'', ''split-mismatch-3'']"
  "map id_a (buildAlerts eastRuntime [tentativeOn 3 ''14 Nov 2025''] nightRef) =
     [''soft-follow-3'', ''split-mismatch-3'']"
  by code_simp+

section \<open>Booking ids of the alerts\<close>

lemma perfAlert_bookingId:
  assumes "list_ex hasPerformance l"
  shows "\<exists>p \<in> set l. hasPerformance p \<and> bookingId (perfAlert k l) = Some (id_b p)"
proof -
  from assms obtain p where p: "find hasPerformance l = Some p"
    by (cases "find hasPerformance l") (auto simp: find_None_iff list_ex_iff)
  then have "p \<in> set l \<and> hasPerformance p"
    by (auto simp: find_Some_iff)
  with p show ?thesis by (auto simp: perfAlert_def Let_def)
qed

lemma filter_allocEvents_pairs:
  "map snd (filter (\<lambda>e. fst e = hallSlotKey dk s h) (allocEvents rt bs)) =
     allocPairsAt rt bs dk s h"
proof (induction bs)
  case Nil
  then show ?case by (simp add: allocEvents_def allocPairsAt_def)
next
  case (Cons b bs)
  have one: "map snd (filter (\<lambda>e. fst e = hallSlotKey dk s h)
        (hallEvents (bookingDateKey rt b) b hs)) =
      (if bookingDateKey rt b = dk \<and> slot b = s
       then map (\<lambda>a. (b, a)) (filter (\<lambda>a. hallCode a = h) hs) else [])" for hs
    by (induction hs) (auto simp: hallEvents_def hallSlotKey_inj)
  have unfold: "allocPairsAt rt (b # bs) dk s h =
      (if bookingDateKey rt b = dk \<and> slot b = s
       then map (\<lambda>a. (b, a)) (filter (\<lambda>a. hallCode a = h) (halls b)) else [])
      @ allocPairsAt rt bs dk s h"
    by (simp add: allocPairsAt_def)
  show ?case
    unfolding allocEvents_Cons unfold using Cons one [of "halls b"] by simp
qed

lemma accumulate_snoc: "accumulate f v (xs @ [x]) = Some (f (accumulate f v xs) x)"
  by (simp add: accumulate_def)

lemma usageOf_sample:
  "sampleGuestsHere (usageOf prev e) =
     (if guestsHere (snd e) \<ge> (case prev of None \<Rightarrow> 0 | Some p \<Rightarrow> sampleGuestsHere p)
      then guestsHere (snd e) else (case prev of None \<Rightarrow> 0 | Some p \<Rightarrow> sampleGuestsHere p))"
  "sampleBookingId (usageOf prev e) =
     (if guestsHere (snd e) \<ge> (case prev of None \<Rightarrow> 0 | Some p \<Rightarrow> sampleGuestsHere p)
      then Some (id_b (fst e)) else (case prev of None \<Rightarrow> None | Some p \<Rightarrow> sampleBookingId p))"
  by (simp_all add: usageOf_def nextUsage_def Let_def)

lemma Max_snoc:
  "xs \<noteq> [] \<Longrightarrow> Max (set (map f (xs @ [x]))) = max (Max (set (map f xs))) (f x :: int)"
  by (simp add: max.commute)

lemma sample_accumulate:
  assumes "evs \<noteq> []"
  shows "\<exists>u. accumulate usageOf None evs = Some u
     \<and> sampleGuestsHere u = max 0 (Max (set (map (\<lambda>e. guestsHere (snd e)) evs)))
     \<and> sampleBookingId u =
         (if Max (set (map (\<lambda>e. guestsHere (snd e)) evs)) < 0 then None
          else Some (id_b (fst (last (filter
                 (\<lambda>e. guestsHere (snd e) = Max (set (map (\<lambda>e. guestsHere (snd e)) evs))) evs)))))"
  using assms
proof (induction evs rule: rev_nonempty_induct)
  case (single e)
  show ?case
    by (simp add: accumulate_Cons accumulate_Nil usageOf_sample)
next
  case (snoc e evs)
  let ?g = "\<lambda>e. guestsHere (snd e)"
  let ?M = "Max (set (map ?g evs))"
  from snoc.IH obtain u where
    u: "accumulate usageOf None evs = Some u" "sampleGuestsHere u = max 0 ?M"
       "sampleBookingId u =
         (if ?M < 0 then None else Some (id_b (fst (last (filter (\<lambda>e. ?g e = ?M) evs)))))"
    by blast
  have M': "Max (set (map ?g (evs @ [e]))) = max ?M (?g e)"
    using snoc.hyps by (rule Max_snoc)
  have acc: "accumulate usageOf None (evs @ [e]) = Some (usageOf (Some u) e)"
    by (simp add: accumulate_snoc u(1))
  show ?case
  proof (cases "?g e \<ge> max 0 ?M")
    case True
    then have "max ?M (?g e) = ?g e" "\<not> ?g e < 0" by auto
    with True show ?thesis
      unfolding acc M' by (simp add: usageOf_sample u(2))
  next
    case False
    show ?thesis
    proof (cases "?M < 0")
      case True
      with False have "?g e < 0" by auto
      with True False show ?thesis
        unfolding acc M' by (simp add: usageOf_sample u(2,3))
    next
      case nonneg: False
      with False have lt: "?g e < ?M" by auto
      then have m: "max ?M (?g e) = ?M" by auto
      from lt have f: "filter (\<lambda>x. ?g x = ?M) (evs @ [e]) = filter (\<lambda>x. ?g x = ?M) evs"
        by simp
      from False nonneg lt show ?thesis
        unfolding acc M' m f by (simp add: usageOf_sample u(2,3))
    qed
  qed
qed

lemma usage_sampleAt:
  assumes "e \<in> set (hallSlotUsage (indexBookings rt bs))"
    and "fst e = hallSlotKey dk s h"
  shows "sampleBookingId (snd e) = sampleAt rt bs dk s h"
proof -
  let ?evs = "allocPairsAt rt bs dk s h"
  from assms(1) have "mapGet (hallSlotUsage (indexBookings rt bs)) (fst e) = Some (snd e)"
    using mapGet_member [OF usage_distinct, of "fst e" "snd e" rt bs] by simp
  then have acc: "accumulate usageOf None ?evs = Some (snd e)"
    unfolding assms(2) usage_lookup filter_allocEvents_pairs .
  then have ne: "?evs \<noteq> []" by (auto simp: accumulate_Nil)
  from sample_accumulate [OF ne] acc ne show ?thesis
    by (auto simp: sampleAt_def Let_def)
qed

lemma find_repeated:
  "find P (map (\<lambda>a. b) xs @ ys) = (if xs \<noteq> [] \<and> P b then Some b else find P ys)"
  by (induction xs) auto

lemma find_groupEntries:
  "find P (groupEntries rt bs dk s h) = find P (bookingsAt rt bs dk s h)"
proof (induction bs)
  case Nil
  then show ?case by (simp add: groupEntries_def bookingsAt_def)
next
  case (Cons b bs)
  have g: "groupEntries rt (b # bs) dk s h =
      (if bookingDateKey rt b = dk \<and> slot b = s
       then map (\<lambda>a. b) (filter (\<lambda>a. hallCode a = h) (halls b)) else [])
      @ groupEntries rt bs dk s h"
    by (simp add: groupEntries_def)
  have a: "bookingsAt rt (b # bs) dk s h =
      (if bookingDateKey rt b = dk \<and> slot b = s \<and> list_ex (\<lambda>a. hallCode a = h) (halls b)
       then [b] else []) @ bookingsAt rt bs dk s h"
    by (simp add: bookingsAt_def)
  have ne: "filter (\<lambda>a. hallCode a = h) (halls b) \<noteq> [] \<longleftrightarrow> list_ex (\<lambda>a. hallCode a = h) (halls b)"
    by (auto simp: filter_empty_conv list_ex_iff)
  show ?case
    unfolding g a using Cons find_repeated [of P b "filter (\<lambda>a. hallCode a = h) (halls b)"]
    by (auto simp: ne)
qed

lemma lists_performerAt:
  assumes "e \<in> set (slotHallBookings (indexBookings rt bs))"
    and "fst e = hallSlotKey dk s h"
  shows "map_option id_b (find hasPerformance (snd e)) = performerAt rt bs dk s h"
proof -
  from assms(1) have "mapGet (slotHallBookings (indexBookings rt bs)) (fst e) = Some (snd e)"
    using mapGet_member [OF lists_distinct, of "fst e" "snd e" rt bs] by simp
  then have "snd e = groupEntries rt bs dk s h"
    unfolding assms(2) lists_lookup filter_allocEvents_bookings
    by (simp add: Let_def split: if_splits)
  then show ?thesis by (simp add: performerAt_def find_groupEntries)
qed

text \<open>
  C8, as the code has it. A COMPLEX_MULTI_HALL_DAY alert has no booking id. A
  CAPACITY_OVERRIDE alert carries what \<open>sampleAt\<close> gives for its key: the id of the
  booking whose allocation has the most guests among the allocations of the key (the
  last such allocation when several have the most), and no id only when every allocation
  of the key has a negative number of guests. A PERFORMANCE_HALL_CONFLICT alert carries
  the id of the first booking of its group that has a performance. An alert of any other
  type carries the id of the booking it is about, the one its own id ends with.
\<close>

theorem C8_booking_id_linkage:
  assumes "a \<in> set (buildAlerts rt bookings today)"
  shows "(type_a a = COMPLEX_MULTI_HALL_DAY \<longrightarrow> bookingId a = None)
   \<and> (type_a a = CAPACITY_OVERRIDE \<longrightarrow>
        (\<exists>b \<in> set bookings. \<exists>al \<in> set (halls b).
            id_a a = capacityAlertId (bookingDateKey rt b) (slot b) (hallCode al)
          \<and> bookingId a = sampleAt rt bookings (bookingDateKey rt b) (slot b) (hallCode al)))
   \<and> (type_a a = PERFORMANCE_HALL_CONFLICT \<longrightarrow>
        (\<exists>b \<in> set bookings. \<exists>al \<in> set (halls b).
            id_a a = perfAlertId (bookingDateKey rt b) (slot b) (hallCode al)
          \<and> bookingId a = performerAt rt bookings (bookingDateKey rt b) (slot b) (hallCode al)
          \<and> bookingId a \<noteq> None))
   \<and> (type_a a \<noteq> COMPLEX_MULTI_HALL_DAY \<and> type_a a \<noteq> PERFORMANCE_HALL_CONFLICT
        \<and> type_a a \<noteq> CAPACITY_OVERRIDE \<longrightarrow>
        (\<exists>b \<in> set bookings. bookingId a = Some (id_b b) \<and> id_a a \<in> set (bookingIds b)))"
proof -
  consider (cap) "a \<in> set (capacityAlerts (hallSlotUsage (indexBookings rt bookings)))"
    | (perf) "a \<in> set (perfAlerts (slotHallBookings (indexBookings rt bookings)))"
    | (book) b where "b \<in> set bookings" "a \<in> set (bookingAlerts rt (startOfDay rt today)
         (addDays (startOfDay rt today) 15) b)"
    | (complex) "a \<in> set (complexAlerts (daySlotBookings (indexBookings rt bookings)))"
    using assms unfolding buildAlerts_mem by blast
  then show ?thesis
  proof cases
    case cap
    then obtain e where e: "e \<in> set (hallSlotUsage (indexBookings rt bookings))"
      "a = capacityAlert (fst e) (snd e)"
      by (auto simp: capacityAlerts_filter)
    from usage_keys [OF e(1)] obtain b :: MockBooking and al :: HallAllocation where
      k: "b \<in> set bookings" "al \<in> set (halls b)"
        "fst e = hallSlotKey (bookingDateKey rt b) (slot b) (hallCode al)" by auto
    have "id_a a = capacityAlertId (bookingDateKey rt b) (slot b) (hallCode al)"
      "bookingId a = sampleAt rt bookings (bookingDateKey rt b) (slot b) (hallCode al)"
      unfolding e(2) k(3)
      using usage_sampleAt [OF e(1) k(3)]
      by (simp_all add: capacityAlert_fields [OF bookingDateKey_nobar])
    with k(1,2) have "\<exists>b \<in> set bookings. \<exists>al \<in> set (halls b).
            id_a a = capacityAlertId (bookingDateKey rt b) (slot b) (hallCode al)
          \<and> bookingId a = sampleAt rt bookings (bookingDateKey rt b) (slot b) (hallCode al)"
      by blast
    with type_capacityAlerts [OF cap] show ?thesis by simp
  next
    case perf
    from perfAlerts_mem [OF perf] obtain e where
      e: "e \<in> set (slotHallBookings (indexBookings rt bookings))"
        "list_ex hasPerformance (snd e)" "a = perfAlert (fst e) (snd e)" by blast
    from lists_keys [OF e(1)] obtain b :: MockBooking and al :: HallAllocation where
      k: "b \<in> set bookings" "al \<in> set (halls b)"
        "fst e = hallSlotKey (bookingDateKey rt b) (slot b) (hallCode al)" by auto
    from perfAlert_bookingId [OF e(2), of "fst e"] e(3) have some: "bookingId a \<noteq> None"
      by auto
    have "id_a a = perfAlertId (bookingDateKey rt b) (slot b) (hallCode al)"
      "bookingId a = performerAt rt bookings (bookingDateKey rt b) (slot b) (hallCode al)"
      unfolding e(3) k(3)
      using lists_performerAt [OF e(1) k(3)]
      by (simp_all add: perfAlert_fields [OF bookingDateKey_nobar])
    with k(1,2) some have "\<exists>b \<in> set bookings. \<exists>al \<in> set (halls b).
            id_a a = perfAlertId (bookingDateKey rt b) (slot b) (hallCode al)
          \<and> bookingId a = performerAt rt bookings (bookingDateKey rt b) (slot b) (hallCode al)
          \<and> bookingId a \<noteq> None"
      by blast
    with type_perfAlerts [OF perf] show ?thesis by simp
  next
    case book
    from book(2) have "id_a a \<in> set (map id_a (bookingAlerts rt (startOfDay rt today)
         (addDays (startOfDay rt today) 15) b))" by simp
    with bookingAlerts_ids_subset have "id_a a \<in> set (bookingIds b)" by blast
    with bookingAlerts_bookingId [OF book(2)] type_bookingAlerts [OF book(2)] book(1)
    show ?thesis by auto
  next
    case complex
    from complexAlerts_bookingId [OF complex] type_complexAlerts [OF complex]
    show ?thesis by simp
  qed
qed

lemma galaDinners_sample:
  "sampleAt utcRuntime galaDinners ''2025-11-15'' DINNER HallA = Some 3"
  "performerAt utcRuntime galaDinners ''2025-11-15'' DINNER HallA = Some 2"
  by code_simp+

lemma galaDinners_nth:
  "length (buildAlerts utcRuntime galaDinners refTime) = 3"
  "id_a (buildAlerts utcRuntime galaDinners refTime ! 0) = capacityAlertId ''2025-11-15'' DINNER HallA"
  "type_a (buildAlerts utcRuntime galaDinners refTime ! 0) = CAPACITY_OVERRIDE"
  "id_a (buildAlerts utcRuntime galaDinners refTime ! 1) = perfAlertId ''2025-11-15'' DINNER HallA"
  "type_a (buildAlerts utcRuntime galaDinners refTime ! 1) = PERFORMANCE_HALL_CONFLICT"
  "type_a (buildAlerts utcRuntime galaDinners refTime ! 2) = COMPLEX_MULTI_HALL_DAY"
proof -
  let ?A = "buildAlerts utcRuntime galaDinners refTime"
  let ?f = "\<lambda>a. (id_a a, type_a a, bookingId a)"
  show len: "length ?A = 3"
    using arg_cong [OF galaDinners_alerts, of length] by simp
  have n: "?f (?A ! 0) = (''cap-2025-11-15-DINNER-A'', CAPACITY_OVERRIDE, Some 3)"
    "?f (?A ! 1) = (''perf-conflict-2025-11-15-DINNER-A'', PERFORMANCE_HALL_CONFLICT, Some 2)"
    "?f (?A ! 2) = (''complex-multihall-2025-11-15-DINNER'', COMPLEX_MULTI_HALL_DAY, None)"
    using arg_cong [OF galaDinners_alerts, of "\<lambda>xs. xs ! 0"]
      arg_cong [OF galaDinners_alerts, of "\<lambda>xs. xs ! 1"]
      arg_cong [OF galaDinners_alerts, of "\<lambda>xs. xs ! 2"] len
    by (simp_all add: nth_map)
  from n show "id_a (?A ! 0) = capacityAlertId ''2025-11-15'' DINNER HallA"
    "type_a (?A ! 0) = CAPACITY_OVERRIDE"
    "id_a (?A ! 1) = perfAlertId ''2025-11-15'' DINNER HallA"
    "type_a (?A ! 1) = PERFORMANCE_HALL_CONFLICT"
    "type_a (?A ! 2) = COMPLEX_MULTI_HALL_DAY"
    by (simp_all add: capacityAlertId_def perfAlertId_def slotStr_def hallCodeStr_def)
qed

theorem C8_witness:
  "buildAlerts utcRuntime galaDinners refTime ! 0 \<in> set (buildAlerts utcRuntime galaDinners refTime)
   \<and> type_a (buildAlerts utcRuntime galaDinners refTime ! 0) = CAPACITY_OVERRIDE
   \<and> bookingId (buildAlerts utcRuntime galaDinners refTime ! 0) =
       sampleAt utcRuntime galaDinners ''2025-11-15'' DINNER HallA
   \<and> sampleAt utcRuntime galaDinners ''2025-11-15'' DINNER HallA = Some 3
   \<and> buildAlerts utcRuntime galaDinners refTime ! 1 \<in> set (buildAlerts utcRuntime galaDinners refTime)
   \<and> type_a (buildAlerts utcRuntime galaDinners refTime ! 1) = PERFORMANCE_HALL_CONFLICT
   \<and> bookingId (buildAlerts utcRuntime galaDinners refTime ! 1) =
       performerAt utcRuntime galaDinners ''2025-11-15'' DINNER HallA
   \<and> performerAt utcRuntime galaDinners ''2025-11-15'' DINNER HallA = Some 2
   \<and> buildAlerts utcRuntime galaDinners refTime ! 2 \<in> set (buildAlerts utcRuntime galaDinners refTime)
   \<and> type_a (buildAlerts utcRuntime galaDinners refTime ! 2) = COMPLEX_MULTI_HALL_DAY
   \<and> bookingId (buildAlerts utcRuntime galaDinners refTime ! 2) = None"
proof -
  let ?A = "buildAlerts utcRuntime galaDinners refTime"
  have mem: "?A ! 0 \<in> set ?A" "?A ! 1 \<in> set ?A" "?A ! 2 \<in> set ?A"
    by (rule nth_mem, simp add: galaDinners_nth)+
  from C8_booking_id_linkage [OF mem(1)] galaDinners_nth(3)
  obtain b :: MockBooking and al :: HallAllocation where
    "id_a (?A ! 0) = capacityAlertId (bookingDateKey utcRuntime b) (slot b) (hallCode al)"
    "bookingId (?A ! 0) = sampleAt utcRuntime galaDinners (bookingDateKey utcRuntime b) (slot b) (hallCode al)"
    by auto
  with galaDinners_nth(2)
  have cap: "bookingId (?A ! 0) = sampleAt utcRuntime galaDinners ''2025-11-15'' DINNER HallA"
    using capacityAlertId_inj [of "''2025-11-15''" DINNER HallA "bookingDateKey utcRuntime b"
        "slot b" "hallCode al"]
    by metis
  from C8_booking_id_linkage [OF mem(2)] galaDinners_nth(5)
  obtain b :: MockBooking and al :: HallAllocation where
    "id_a (?A ! 1) = perfAlertId (bookingDateKey utcRuntime b) (slot b) (hallCode al)"
    "bookingId (?A ! 1) = performerAt utcRuntime galaDinners (bookingDateKey utcRuntime b) (slot b) (hallCode al)"
    by auto
  with galaDinners_nth(4)
  have perf: "bookingId (?A ! 1) = performerAt utcRuntime galaDinners ''2025-11-15'' DINNER HallA"
    using perfAlertId_inj [of "''2025-11-15''" DINNER HallA "bookingDateKey utcRuntime b"
        "slot b" "hallCode al"]
    by metis
  from C8_booking_id_linkage [OF mem(3)] galaDinners_nth(6)
  have complex: "bookingId (?A ! 2) = None" by simp
  from mem cap perf complex galaDinners_nth(3,5,6) galaDinners_sample show ?thesis
    by simp
qed

text \<open>
  C8 as worded fails on a capacity override: the alert of the three dinners in hall A
  carries the id of booking 1, the booking with the most guests.
\<close>

theorem C8_counterexample:
  "type_a (buildAlerts utcRuntime threeDinners refTime ! 0) = CAPACITY_OVERRIDE
   \<and> bookingId (buildAlerts utcRuntime threeDinners refTime ! 0) = Some 1"
  by (simp add: threeDinners_nth)

section \<open>Loading the persisted store\<close>














section \<open>Alert ids are distinct\<close>

lemma distinct_bookingAlerts_ids: "distinct (map id_a (bookingAlerts rt ts te b))"
  unfolding bookingAlerts_ids distinct_append set_append set_if_single
  by (simp add: distinct_if_single)

lemma bookingIds_disjoint:
  assumes "id_b b \<noteq> id_b b'"
  shows "set (bookingIds b) \<inter> set (bookingIds b') = {}"
proof -
  from assms have "showInt (id_b b) \<noteq> showInt (id_b b')"
    using showInt_inj by blast
  then show ?thesis by (simp add: bookingIds_def)
qed

lemma distinct_capacity_ids:
  "distinct (map id_a (capacityAlerts (hallSlotUsage (indexBookings rt bs))))"
proof -
  let ?U = "hallSlotUsage (indexBookings rt bs)"
  let ?G = "\<lambda>e. id_a (capacityAlert (fst e) (snd e))"
  have inj: "inj_on ?G (set ?U)"
  proof (rule inj_onI)
    fix e e' assume e: "e \<in> set ?U" and e': "e' \<in> set ?U" and eq: "?G e = ?G e'"
    from usage_keys [OF e] obtain b :: MockBooking and a :: HallAllocation where
      k: "fst e = hallSlotKey (bookingDateKey rt b) (slot b) (hallCode a)" by auto
    from usage_keys [OF e'] obtain b' :: MockBooking and a' :: HallAllocation where
      k': "fst e' = hallSlotKey (bookingDateKey rt b') (slot b') (hallCode a')" by auto
    from eq have "fst e = fst e'"
      by (simp add: k k' capacityAlert_fields [OF bookingDateKey_nobar] capacityAlertId_inj)
    with e e' show "e = e'" by (rule entries_eq [OF usage_distinct])
  qed
  have "distinct (map ?G (filter (\<lambda>e. \<not> used (snd e) \<le> capacity_u (snd e)) ?U))"
    using distinct_entries [OF usage_distinct, of rt bs] inj
    by (simp add: distinct_map inj_on_def)
  then show ?thesis by (simp add: capacityAlerts_filter comp_def)
qed

lemma distinct_perf_ids:
  "distinct (map id_a (perfAlerts (slotHallBookings (indexBookings rt bs))))"
proof -
  let ?U = "slotHallBookings (indexBookings rt bs)"
  let ?G = "\<lambda>e. id_a (perfAlert (fst e) (snd e))"
  have inj: "inj_on ?G (set ?U)"
  proof (rule inj_onI)
    fix e e' assume e: "e \<in> set ?U" and e': "e' \<in> set ?U" and eq: "?G e = ?G e'"
    from lists_keys [OF e] obtain b :: MockBooking and a :: HallAllocation where
      k: "fst e = hallSlotKey (bookingDateKey rt b) (slot b) (hallCode a)" by auto
    from lists_keys [OF e'] obtain b' :: MockBooking and a' :: HallAllocation where
      k': "fst e' = hallSlotKey (bookingDateKey rt b') (slot b') (hallCode a')" by auto
    from eq have "fst e = fst e'"
      by (simp add: k k' perfAlert_fields [OF bookingDateKey_nobar] perfAlertId_inj)
    with e e' show "e = e'" by (rule entries_eq [OF lists_distinct])
  qed
  have "distinct (map ?G (filter (\<lambda>e. 1 < length (snd e) \<and> list_ex hasPerformance (snd e)) ?U))"
    using distinct_entries [OF lists_distinct, of rt bs] inj
    by (simp add: distinct_map inj_on_def)
  then show ?thesis by (simp add: perfAlerts_filter comp_def)
qed

lemma distinct_complex_ids:
  "distinct (map id_a (complexAlerts (daySlotBookings (indexBookings rt bs))))"
proof -
  let ?U = "daySlotBookings (indexBookings rt bs)"
  let ?G = "\<lambda>e. id_a (complexAlert (fst e) (snd e) (filter (\<lambda>b. length (halls b) > 1) (snd e)))"
  have inj: "inj_on ?G (set ?U)"
  proof (rule inj_onI)
    fix e e' assume e: "e \<in> set ?U" and e': "e' \<in> set ?U" and eq: "?G e = ?G e'"
    from days_keys [OF e] obtain b :: MockBooking where
      k: "fst e = daySlotKey (bookingDateKey rt b) (slot b)" by auto
    from days_keys [OF e'] obtain b' :: MockBooking where
      k': "fst e' = daySlotKey (bookingDateKey rt b') (slot b')" by auto
    from eq have "fst e = fst e'"
      by (simp add: k k' complexAlert_fields [OF bookingDateKey_nobar] complexAlertId_inj)
    with e e' show "e = e'" by (rule entries_eq [OF days_distinct])
  qed
  have "distinct (map ?G (filter (\<lambda>e. 1 < length (snd e)
          \<and> (2 \<le> length (filter (\<lambda>b. length (halls b) > 1) (snd e)) \<or> 3 \<le> length (snd e))) ?U))"
    using distinct_entries [OF days_distinct, of rt bs] inj
    by (simp add: distinct_map inj_on_def)
  then show ?thesis by (simp add: complexAlerts_filter comp_def)
qed

lemma distinct_booking_ids:
  assumes "distinct (map id_b bs)"
  shows "distinct (map id_a (concat (map (bookingAlerts rt ts te) bs)))"
  using assms
proof (induction bs)
  case Nil
  then show ?case by simp
next
  case (Cons b bs)
  have rest: "set (map id_a (concat (map (bookingAlerts rt ts te) bs)))
      \<subseteq> (\<Union>b' \<in> set bs. set (bookingIds b'))"
    using bookingAlerts_ids_subset [of rt ts te] by fastforce
  have "set (bookingIds b) \<inter> (\<Union>b' \<in> set bs. set (bookingIds b')) = {}"
    using Cons.prems bookingIds_disjoint [of b] by fastforce
  with rest bookingAlerts_ids_subset [of rt ts te b]
  have "set (map id_a (bookingAlerts rt ts te b))
      \<inter> set (map id_a (concat (map (bookingAlerts rt ts te) bs))) = {}"
    by blast
  with Cons distinct_bookingAlerts_ids [of rt ts te b] show ?case by simp
qed

lemma capacity_id_shape: "a \<in> set (capacityAlerts es) \<Longrightarrow> \<exists>x. id_a a = ''cap-'' @ x"
  by (auto simp: capacityAlerts_filter capacityAlert_def Let_def)

lemma perf_id_shape: "a \<in> set (perfAlerts es) \<Longrightarrow> \<exists>x. id_a a = ''perf-conflict-'' @ x"
  by (auto simp: perfAlerts_filter perfAlert_def Let_def)

lemma complex_id_shape:
  "a \<in> set (complexAlerts es) \<Longrightarrow> \<exists>x. id_a a = ''complex-multihall-'' @ x"
  by (auto simp: complexAlerts_filter complexAlert_def Let_def)

lemma booking_id_shape:
  assumes "a \<in> set (concat (map (bookingAlerts rt ts te) bs))"
  shows "\<exists>b. id_a a \<in> set (bookingIds b)"
proof -
  from assms obtain b where "a \<in> set (bookingAlerts rt ts te b)" by auto
  then have "id_a a \<in> set (map id_a (bookingAlerts rt ts te b))" by simp
  with bookingAlerts_ids_subset [of rt ts te b] show ?thesis by blast
qed

text \<open>
  C10. When the bookings have pairwise distinct ids, the alerts of the output have
  pairwise distinct ids.
\<close>

theorem C10_alert_ids_distinct:
  assumes "distinct (map id_b bookings)"
  shows "distinct (map id_a (buildAlerts rt bookings today))"
proof -
  let ?A = "capacityAlerts (hallSlotUsage (indexBookings rt bookings))"
  let ?B = "perfAlerts (slotHallBookings (indexBookings rt bookings))"
  let ?C = "concat (map (bookingAlerts rt (startOfDay rt today)
         (addDays (startOfDay rt today) 15)) bookings)"
  let ?D = "complexAlerts (daySlotBookings (indexBookings rt bookings))"
  have AB: "id_a a \<noteq> id_a b" if "a \<in> set ?A" "b \<in> set ?B" for a b
    using capacity_id_shape [OF that(1)] perf_id_shape [OF that(2)] by auto
  have AC: "id_a a \<noteq> id_a b" if "a \<in> set ?A" "b \<in> set ?C" for a b
    using capacity_id_shape [OF that(1)] booking_id_shape [OF that(2)]
    by (auto simp: bookingIds_def)
  have AD: "id_a a \<noteq> id_a b" if "a \<in> set ?A" "b \<in> set ?D" for a b
    using capacity_id_shape [OF that(1)] complex_id_shape [OF that(2)] by auto
  have BC: "id_a a \<noteq> id_a b" if "a \<in> set ?B" "b \<in> set ?C" for a b
    using perf_id_shape [OF that(1)] booking_id_shape [OF that(2)]
    by (auto simp: bookingIds_def)
  have BD: "id_a a \<noteq> id_a b" if "a \<in> set ?B" "b \<in> set ?D" for a b
    using perf_id_shape [OF that(1)] complex_id_shape [OF that(2)] by auto
  have CD: "id_a a \<noteq> id_a b" if "a \<in> set ?C" "b \<in> set ?D" for a b
    using booking_id_shape [OF that(1)] complex_id_shape [OF that(2)]
    by (auto simp: bookingIds_def)
  have dAB: "set (map id_a ?A) \<inter> set (map id_a ?B) = {}" using AB by auto
  have dAC: "set (map id_a ?A) \<inter> set (map id_a ?C) = {}" using AC by fastforce
  have dAD: "set (map id_a ?A) \<inter> set (map id_a ?D) = {}" using AD by auto
  have dBC: "set (map id_a ?B) \<inter> set (map id_a ?C) = {}" using BC by fastforce
  have dBD: "set (map id_a ?B) \<inter> set (map id_a ?D) = {}" using BD by auto
  have dCD: "set (map id_a ?C) \<inter> set (map id_a ?D) = {}" using CD by fastforce
  have 1: "set (map id_a ?A) \<inter> (set (map id_a ?B) \<union> (set (map id_a ?C) \<union> set (map id_a ?D))) = {}"
    using dAB dAC dAD by blast
  have 2: "set (map id_a ?B) \<inter> (set (map id_a ?C) \<union> set (map id_a ?D)) = {}"
    using dBC dBD by blast
  have "distinct (map id_a ?A @ map id_a ?B @ map id_a ?C @ map id_a ?D)"
    unfolding distinct_append set_append
    using distinct_capacity_ids [of rt bookings] distinct_perf_ids [of rt bookings]
      distinct_booking_ids [OF assms, of rt "startOfDay rt today" "addDays (startOfDay rt today) 15"]
      distinct_complex_ids [of rt bookings] 1 2 dCD
    by blast
  then show ?thesis by (simp add: buildAlerts_def Let_def)
qed

theorem C10_witness:
  "distinct (map id_b threeDinners)
   \<and> distinct (map id_a (buildAlerts utcRuntime threeDinners refTime))"
proof -
  have d: "distinct (map id_b threeDinners)"
    by (simp add: threeDinners_def dinnerA_fields)
  from C10_alert_ids_distinct [OF d, of utcRuntime refTime] d show ?thesis by simp
qed

end
